theory Spec2Isabelle
  imports Complex_Main "HOL-Library.AList" "HOL-Library.Log_Nat" "HOL-Library.Multiset" "HOL-Library.Word"
begin

section \<open>Strings as the TypeScript code uses them\<close>

text \<open>
  A JavaScript string is modelled as a \<open>string\<close> (a list of characters). Optional values
  (\<open>string | undefined\<close>) are \<open>string option\<close>; the empty string and \<open>undefined\<close> are
  both falsy, exactly as in \<open>if (!imageUrl)\<close> or \<open>a || b\<close>.
\<close>

fun startsWith :: "string \<Rightarrow> string \<Rightarrow> bool" where
  "startsWith s [] = True"
| "startsWith [] (c # t) = False"
| "startsWith (a # s) (c # t) = (a = c \<and> startsWith s t)"

text \<open>\<open>s.includes(t)\<close>: \<open>t\<close> occurs somewhere in \<open>s\<close>.\<close>

fun str_includes :: "string \<Rightarrow> string \<Rightarrow> bool" where
  "str_includes [] t = (t = [])"
| "str_includes (a # s) t = (startsWith (a # s) t \<or> str_includes s t)"

text \<open>Truthiness of an optional string: defined and not empty.\<close>

fun truthy :: "string option \<Rightarrow> bool" where
  "truthy None = False"
| "truthy (Some s) = (s \<noteq> [])"

text \<open>\<open>s.split(c)\<close> for a one-character separator, and the optional element \<open>[i]\<close>.\<close>

fun splitOn :: "char \<Rightarrow> string \<Rightarrow> string list" where
  "splitOn c [] = [[]]"
| "splitOn c (x # xs) =
     (if x = c then [] # splitOn c xs
      else (case splitOn c xs of [] \<Rightarrow> [[x]] | w # ws \<Rightarrow> (x # w) # ws))"

fun nth_opt :: "'a list \<Rightarrow> nat \<Rightarrow> 'a option" where
  "nth_opt [] i = None"
| "nth_opt (x # xs) 0 = Some x"
| "nth_opt (x # xs) (Suc i) = nth_opt xs i"

text \<open>Binary data: a list of bytes.\<close>

type_synonym bytes = "8 word list"

section \<open>Provider Fallback Resolver: \<open>src/app/api/generate-video/route.ts\<close>\<close>

text \<open>
  A parameter value of a model input object. \<open>PDec m e\<close> is the decimal \<open>m / 10^e\<close>
  (\<open>cond_aug: 0.02\<close> is \<open>PDec 2 2\<close>).
\<close>

datatype param = PNum int | PDec int nat | PStr string | PBool bool

type_synonym params = "(string \<times> param) list"

record model_config =
  cfg_input_image :: bool
  cfg_image :: bool
  cfg_prompt_required :: bool
  cfg_params :: params

definition DEFAULT_MODEL :: string where
  "DEFAULT_MODEL =
     ''stability-ai/stable-video-diffusion:3f0457e4619daac51203dedb472816fd4af51f3149fa7a9e0b5ffcf1b8172438''"

definition natural_motion :: string where
  "natural_motion = ''Animate this image with smooth, natural motion''"

definition cinematic_motion :: string where
  "cinematic_motion = ''Animate this image with smooth, natural motion, cinematic camera movement''"

text \<open>
  \<open>MODEL_CONFIGS\<close> in the order of the object literal (\<open>Object.entries\<close> keeps insertion
  order). A flag that the literal leaves out is \<open>undefined\<close>, hence falsy.
\<close>

definition MODEL_CONFIGS :: "(string \<times> model_config) list" where
  "MODEL_CONFIGS =
    [(''stability-ai/stable-video-diffusion'',
        \<lparr>cfg_input_image = True, cfg_image = False, cfg_prompt_required = False,
         cfg_params = [(''motion_bucket_id'', PNum 127), (''cond_aug'', PDec 2 2),
                       (''video_length'', PStr ''25_frames_with_svd_xt''),
                       (''sizing_strategy'', PStr ''maintain_aspect_ratio''),
                       (''frames_per_second'', PNum 6)]\<rparr>),
     (''lightricks/ltx-video'',
        \<lparr>cfg_input_image = False, cfg_image = True, cfg_prompt_required = True,
         cfg_params = [(''prompt'', PStr ''Animate this image with smooth, natural camera motion''),
                       (''num_frames'', PNum 161), (''num_inference_steps'', PNum 30)]\<rparr>),
     (''google/veo'',
        \<lparr>cfg_input_image = False, cfg_image = True, cfg_prompt_required = True,
         cfg_params = [(''duration'', PNum 5), (''aspect_ratio'', PStr ''16:9''),
                       (''prompt'', PStr natural_motion)]\<rparr>),
     (''wan-video/wan'',
        \<lparr>cfg_input_image = False, cfg_image = True, cfg_prompt_required = True,
         cfg_params = [(''duration'', PNum 5), (''prompt'', PStr natural_motion)]\<rparr>),
     (''minimax/hailuo'',
        \<lparr>cfg_input_image = False, cfg_image = True, cfg_prompt_required = True,
         cfg_params = [(''duration'', PNum 5), (''prompt'', PStr natural_motion)]\<rparr>),
     (''minimax/video-01'',
        \<lparr>cfg_input_image = False, cfg_image = True, cfg_prompt_required = True,
         cfg_params = [(''duration'', PNum 5), (''prompt'', PStr natural_motion)]\<rparr>),
     (''bytedance/seedance'',
        \<lparr>cfg_input_image = False, cfg_image = True, cfg_prompt_required = True,
         cfg_params = [(''duration'', PNum 5), (''prompt'', PStr cinematic_motion)]\<rparr>),
     (''bytedance/seedance-1-lite'',
        \<lparr>cfg_input_image = False, cfg_image = True, cfg_prompt_required = True,
         cfg_params = [(''duration'', PNum 5), (''prompt'', PStr cinematic_motion)]\<rparr>),
     (''kwaivgi/kling'',
        \<lparr>cfg_input_image = False, cfg_image = True, cfg_prompt_required = True,
         cfg_params = [(''duration'', PNum 5), (''prompt'', PStr natural_motion)]\<rparr>),
     (''luma/ray'',
        \<lparr>cfg_input_image = False, cfg_image = True, cfg_prompt_required = True,
         cfg_params = [(''extend'', PBool False), (''duration'', PNum 5),
                       (''prompt'', PStr natural_motion)]\<rparr>),
     (''luma/modify-video'',
        \<lparr>cfg_input_image = False, cfg_image = True, cfg_prompt_required = True,
         cfg_params = [(''duration'', PNum 5), (''prompt'', PStr natural_motion)]\<rparr>),
     (''fofr/tooncrafter'',
        \<lparr>cfg_input_image = False, cfg_image = True, cfg_prompt_required = False,
         cfg_params = [(''duration'', PNum 5)]\<rparr>),
     (''open-mmlab/pia'',
        \<lparr>cfg_input_image = False, cfg_image = True, cfg_prompt_required = True,
         cfg_params = [(''duration'', PNum 5), (''prompt'', PStr natural_motion)]\<rparr>)]"

text \<open>The superset template that \<open>getModelConfig\<close> returns for an unknown model.\<close>

definition unknown_model_config :: model_config where
  "unknown_model_config =
     \<lparr>cfg_input_image = True, cfg_image = True, cfg_prompt_required = True,
      cfg_params = [(''duration'', PNum 5), (''prompt'', PStr natural_motion),
                    (''motion_bucket_id'', PNum 127), (''frames_per_second'', PNum 6)]\<rparr>"

text \<open>The \<open>for\<close> loop of \<open>getModelConfig\<close>: the first key that the model id includes wins.\<close>

fun firstMatch :: "string \<Rightarrow> (string \<times> model_config) list \<Rightarrow> model_config" where
  "firstMatch modelId [] = unknown_model_config"
| "firstMatch modelId ((key, config) # rest) =
     (if str_includes modelId key then config else firstMatch modelId rest)"

definition getModelConfig :: "string \<Rightarrow> model_config" where
  "getModelConfig modelId = firstMatch modelId MODEL_CONFIGS"

text \<open>
  \<open>const input = { ...config.params }\<close>, then \<open>input.input_image = imageUrl\<close> and
  \<open>input.image = imageUrl\<close> as the flags say. Assigning a key keeps its place when the
  object has it and appends it otherwise, which is \<open>AList.update\<close>.
\<close>

definition buildInput :: "model_config \<Rightarrow> string \<Rightarrow> params" where
  "buildInput config imageUrl =
     (let input = cfg_params config;
          input = (if cfg_input_image config
                   then AList.update ''input_image'' (PStr imageUrl) input else input);
          input = (if cfg_image config
                   then AList.update ''image'' (PStr imageUrl) input else input)
      in input)"

text \<open>The parsed request body \<open>{ imageUrl, modelConfig }\<close>.\<close>

record model_setting =
  modelId :: "string option"

record video_request =
  req_imageUrl :: "string option"
  req_modelConfig :: "model_setting option"

text \<open>A \<open>NextResponse.json(body, { status })\<close>: the status and the fields of the body.\<close>

record response =
  status :: nat
  body :: "(string \<times> string) list"

text \<open>One call of \<open>replicate.run(model, { input })\<close>, as the handler's trace records it.\<close>

type_synonym attempt = "string \<times> params"

text \<open>\<open>modelConfig?.modelId || DEFAULT_MODEL\<close>\<close>

definition configuredModel :: "video_request \<Rightarrow> string" where
  "configuredModel req =
     (case req_modelConfig req of
        None \<Rightarrow> DEFAULT_MODEL
      | Some mc \<Rightarrow>
          (case modelId mc of
             None \<Rightarrow> DEFAULT_MODEL
           | Some m \<Rightarrow> (if m \<noteq> [] then m else DEFAULT_MODEL)))"

text \<open>
  \<open>err.message && (err.message.includes('404') || err.message.includes('Not Found'))\<close>.
  A thrown error is modelled by its message; an absent message is the empty string (both
  are falsy wherever the handler reads them).
\<close>

definition is404Error :: "string \<Rightarrow> bool" where
  "is404Error message =
     (message \<noteq> [] \<and> (str_includes message ''404'' \<or> str_includes message ''Not Found''))"

text \<open>
  The message of the asset-expired response. The source has the character U+1F504 before
  \<open>Regenerate\<close>; it is written here as its four UTF-8 bytes.
\<close>

definition EXPIRED_MESSAGE :: string where
  "EXPIRED_MESSAGE =
     ''Image URL has expired. Please go back to Storyboard and regenerate the image (click ''
     @ [CHR 0xF0, CHR 0x9F, CHR 0x94, CHR 0x84]
     @ '' Regenerate), then try again.''"

definition expiredResponse :: response where
  "expiredResponse = \<lparr>status = 400, body = [(''error'', EXPIRED_MESSAGE)]\<rparr>"

text \<open>The outer \<open>catch (error)\<close> of the handler, reached by the two \<open>throw\<close>s.\<close>

definition outerCatch :: "string \<Rightarrow> response" where
  "outerCatch message =
     (if is404Error message then expiredResponse
      else \<lparr>status = 500,
            body = [(''error'', if message \<noteq> [] then message else ''Failed to generate video'')]\<rparr>)"

text \<open>
  The handler \<open>POST\<close>. The provider is the parameter \<open>run\<close> (\<open>replicate.run\<close>): \<open>Inr\<close> its
  output, \<open>Inl\<close> the message of the error it throws. \<open>proxy\<close> is \<open>proxyReplicateUrl\<close>, of
  a module outside this development. The result is the response together with the attempts
  made against the provider, in order. A retry is always made against another model id than
  the first attempt, so a function of the model id describes any pair of outcomes.
\<close>

definition POST ::
  "(string \<Rightarrow> params \<Rightarrow> string + string) \<Rightarrow> (string \<Rightarrow> string) \<Rightarrow> video_request
     \<Rightarrow> response \<times> attempt list" where
  "POST run proxy req =
     (case req_imageUrl req of
        None \<Rightarrow> (\<lparr>status = 400, body = [(''error'', ''Image URL is required'')]\<rparr>, [])
      | Some imageUrl \<Rightarrow>
          if imageUrl = [] then (\<lparr>status = 400, body = [(''error'', ''Image URL is required'')]\<rparr>, [])
          else
            let model = configuredModel req;
                config = getModelConfig model;
                input = buildInput config imageUrl
            in (case run model input of
                  Inr output \<Rightarrow>
                    (\<lparr>status = 200, body = [(''videoUrl'', proxy output), (''modelUsed'', model)]\<rparr>,
                     [(model, input)])
                | Inl message \<Rightarrow>
                    if is404Error message then (expiredResponse, [(model, input)])
                    else if model \<noteq> DEFAULT_MODEL then
                      (let defaultConfig = getModelConfig DEFAULT_MODEL;
                           defaultInput = buildInput defaultConfig imageUrl
                       in (case run DEFAULT_MODEL defaultInput of
                             Inr output \<Rightarrow>
                               (\<lparr>status = 200,
                                 body = [(''videoUrl'', proxy output), (''modelUsed'', DEFAULT_MODEL),
                                         (''warning'', ''Original model failed, used fallback: '' @ DEFAULT_MODEL)]\<rparr>,
                                [(model, input), (DEFAULT_MODEL, defaultInput)])
                           | Inl fallbackMessage \<Rightarrow>
                               (if is404Error fallbackMessage then expiredResponse
                                else outerCatch fallbackMessage,
                                [(model, input), (DEFAULT_MODEL, defaultInput)])))
                    else (outerCatch message, [(model, input)])))"

text \<open>Two concrete requests: one configured with another model than the default, one with none.\<close>

definition veoRequest :: video_request where
  "veoRequest = \<lparr>req_imageUrl = Some ''https://replicate.delivery/a.png'',
       req_modelConfig = Some \<lparr>modelId = Some ''google/veo-3''\<rparr>\<rparr>"

definition plainRequest :: video_request where
  "plainRequest = \<lparr>req_imageUrl = Some ''https://replicate.delivery/a.png'',
       req_modelConfig = None\<rparr>"

section \<open>Generation Scheduler: the story store, \<open>Storyboard\<close>, \<open>EditView\<close> and \<open>AudioGenerator\<close>\<close>

subsection \<open>The story store (\<open>StoryStore\<close>)\<close>

text \<open>
  The interfaces \<open>Shot\<close>, \<open>Scene\<close>, \<open>Character\<close> and \<open>StoryData\<close>. Field names carry the
  name of their interface as a prefix (\<open>shot_imageUrl\<close> is \<open>Shot.imageUrl\<close>). An optional
  field is an \<open>option\<close>; \<open>undefined\<close> is \<open>None\<close>.
\<close>

record shot =
  shot_id :: string
  shot_subtitle :: string
  shot_location :: string
  shot_content :: string
  shot_imageUrl :: "string option"
  shot_isGenerating :: "bool option"
  shot_isAnimating :: "bool option"
  shot_animationUrl :: "string option"
  shot_audioUrl :: "string option"
  shot_isGeneratingAudio :: "bool option"

record scene =
  scene_id :: string
  scene_title :: string
  scene_description :: string
  scene_shots :: "shot list"

record character =
  char_name :: string
  char_description :: string
  char_prompt :: "string option"
  char_referenceImageUrl :: "string option"
  char_isGenerating :: "bool option"

record story =
  story_title :: string
  story_synopsis :: string
  characters :: "character list"
  scenes :: "scene list"
  story_style :: "string option"
  story_aspectRatio :: "string option"

text \<open>Truthiness of an optional flag: \<open>if (shot.isGenerating)\<close>.\<close>

definition isSet :: "bool option \<Rightarrow> bool" where
  "isSet flag = (flag = Some True)"

text \<open>
  \<open>xs.find(p)\<close> followed by \<open>Object.assign\<close> on the element found: the first element that
  satisfies \<open>p\<close> is updated in place, and nothing happens when there is none.
\<close>

fun updateFirst :: "('a \<Rightarrow> bool) \<Rightarrow> ('a \<Rightarrow> 'a) \<Rightarrow> 'a list \<Rightarrow> 'a list" where
  "updateFirst p f [] = []"
| "updateFirst p f (x # xs) = (if p x then f x # xs else x # updateFirst p f xs)"

text \<open>
  \<open>updateShot(sceneId, shotId, updates)\<close>. The \<open>Partial<Shot>\<close> that \<open>Object.assign\<close>
  copies onto the shot is the function \<open>updates\<close> on shots.
\<close>

definition updateShot :: "string \<Rightarrow> string \<Rightarrow> (shot \<Rightarrow> shot) \<Rightarrow> story \<Rightarrow> story" where
  "updateShot sceneId shotId updates st =
     st\<lparr>scenes :=
          updateFirst (\<lambda>s. scene_id s = sceneId)
            (\<lambda>s. s\<lparr>scene_shots := updateFirst (\<lambda>h. shot_id h = shotId) updates (scene_shots s)\<rparr>)
            (scenes st)\<rparr>"

definition setGeneratingShot :: "string \<Rightarrow> string \<Rightarrow> bool \<Rightarrow> story \<Rightarrow> story" where
  "setGeneratingShot sceneId shotId isGenerating =
     updateShot sceneId shotId (\<lambda>h. h\<lparr>shot_isGenerating := Some isGenerating\<rparr>)"

definition setAnimatingShot :: "string \<Rightarrow> string \<Rightarrow> bool \<Rightarrow> story \<Rightarrow> story" where
  "setAnimatingShot sceneId shotId isAnimating =
     updateShot sceneId shotId (\<lambda>h. h\<lparr>shot_isAnimating := Some isAnimating\<rparr>)"

definition setGeneratingAudioShot :: "string \<Rightarrow> string \<Rightarrow> bool \<Rightarrow> story \<Rightarrow> story" where
  "setGeneratingAudioShot sceneId shotId isGeneratingAudio =
     updateShot sceneId shotId (\<lambda>h. h\<lparr>shot_isGeneratingAudio := Some isGeneratingAudio\<rparr>)"

text \<open>\<open>updateCharacter(index, updates)\<close>: only when \<open>characters[index]\<close> exists.\<close>

definition updateCharacter :: "nat \<Rightarrow> (character \<Rightarrow> character) \<Rightarrow> story \<Rightarrow> story" where
  "updateCharacter index updates st =
     (case nth_opt (characters st) index of
        None \<Rightarrow> st
      | Some c \<Rightarrow> st\<lparr>characters := (characters st)[index := updates c]\<rparr>)"

definition setGeneratingCharacter :: "nat \<Rightarrow> bool \<Rightarrow> story \<Rightarrow> story" where
  "setGeneratingCharacter index isGenerating =
     updateCharacter index (\<lambda>c. c\<lparr>char_isGenerating := Some isGenerating\<rparr>)"

subsection \<open>The reset of stuck states when a view mounts\<close>

text \<open>
  The \<open>forEach\<close> loops of the two mount effects walk the arrays of the store while the
  store's methods update their elements in place. The arrays keep their lengths, so the
  walk is by position, and each step reads the element as it is at that moment.
\<close>

definition shotAt :: "story \<Rightarrow> nat \<Rightarrow> nat \<Rightarrow> shot option" where
  "shotAt st i j =
     (case nth_opt (scenes st) i of None \<Rightarrow> None | Some s \<Rightarrow> nth_opt (scene_shots s) j)"

text \<open>The body of \<open>scene.shots.forEach\<close> in the mount effect of \<open>EditView\<close>.\<close>

definition resetShotEdit :: "nat \<Rightarrow> nat \<Rightarrow> story \<Rightarrow> story" where
  "resetShotEdit i j st =
     (case nth_opt (scenes st) i of
        None \<Rightarrow> st
      | Some s \<Rightarrow>
          (case nth_opt (scene_shots s) j of
             None \<Rightarrow> st
           | Some h \<Rightarrow>
               (let st1 = (if isSet (shot_isAnimating h) \<and> \<not> truthy (shot_animationUrl h)
                           then setAnimatingShot (scene_id s) (shot_id h) False st else st)
                in case shotAt st1 i j of
                     None \<Rightarrow> st1
                   | Some h1 \<Rightarrow>
                       if isSet (shot_isGeneratingAudio h1) \<and> \<not> truthy (shot_audioUrl h1)
                       then setGeneratingAudioShot (scene_id s) (shot_id h1) False st1 else st1)))"

text \<open>The body of \<open>scene.shots.forEach\<close> in the mount effect of \<open>Storyboard\<close>.\<close>

definition resetShotStoryboard :: "nat \<Rightarrow> nat \<Rightarrow> story \<Rightarrow> story" where
  "resetShotStoryboard i j st =
     (case nth_opt (scenes st) i of
        None \<Rightarrow> st
      | Some s \<Rightarrow>
          (case nth_opt (scene_shots s) j of
             None \<Rightarrow> st
           | Some h \<Rightarrow>
               if isSet (shot_isGenerating h) \<and> \<not> truthy (shot_imageUrl h)
               then setGeneratingShot (scene_id s) (shot_id h) False st else st))"

text \<open>\<open>story.scenes.forEach(scene => scene.shots.forEach(...))\<close> for a given loop body \<open>step\<close>.\<close>

definition forEachShot :: "(nat \<Rightarrow> nat \<Rightarrow> story \<Rightarrow> story) \<Rightarrow> story \<Rightarrow> story" where
  "forEachShot step st =
     fold (\<lambda>i st. case nth_opt (scenes st) i of
                     None \<Rightarrow> st
                   | Some s \<Rightarrow> fold (step i) [0..<length (scene_shots s)] st)
          [0..<length (scenes st)] st"

text \<open>The body of \<open>story.characters.forEach((char, index) => ...)\<close> of \<open>Storyboard\<close>.\<close>

definition resetCharacter :: "nat \<Rightarrow> story \<Rightarrow> story" where
  "resetCharacter index st =
     (case nth_opt (characters st) index of
        None \<Rightarrow> st
      | Some c \<Rightarrow>
          if isSet (char_isGenerating c) \<and> \<not> truthy (char_referenceImageUrl c)
          then setGeneratingCharacter index False st else st)"

definition mountEditView :: "story \<Rightarrow> story" where
  "mountEditView st = forEachShot resetShotEdit st"

definition mountStoryboard :: "story \<Rightarrow> story" where
  "mountStoryboard st =
     (let st1 = forEachShot resetShotStoryboard st
      in fold resetCharacter [0..<length (characters st1)] st1)"

text \<open>
  The identities of the data model: scene ids differ from each other, and so do the shot
  ids within a scene.
\<close>

definition uniqueIds :: "story \<Rightarrow> bool" where
  "uniqueIds st =
     (distinct (map scene_id (scenes st))
      \<and> list_all (\<lambda>s. distinct (map shot_id (scene_shots s))) (scenes st))"

text \<open>All shots of a story, scene after scene (\<open>getAllShots\<close>).\<close>

definition getAllShots :: "story \<Rightarrow> shot list" where
  "getAllShots st = concat (map scene_shots (scenes st))"

text \<open>
  For the proofs: the shot at position \<open>(i, j)\<close> replaced by \<open>g\<close> of it, and every
  shot of the story replaced by \<open>g\<close> of it.
\<close>

definition mapShotAt :: "nat \<Rightarrow> nat \<Rightarrow> (shot \<Rightarrow> shot) \<Rightarrow> story \<Rightarrow> story" where
  "mapShotAt i j g st =
     st\<lparr>scenes :=
          (scenes st)[i := (scenes st ! i)
             \<lparr>scene_shots := (scene_shots (scenes st ! i))[j := g (scene_shots (scenes st ! i) ! j)]\<rparr>]\<rparr>"

definition mapShots :: "(shot \<Rightarrow> shot) \<Rightarrow> story \<Rightarrow> story" where
  "mapShots g st = st\<lparr>scenes := map (\<lambda>s. s\<lparr>scene_shots := map g (scene_shots s)\<rparr>) (scenes st)\<rparr>"

text \<open>What the two mount effects do to one shot, and what \<open>Storyboard\<close> does to one character.\<close>

definition clearStaleEdit :: "shot \<Rightarrow> shot" where
  "clearStaleEdit h =
     (let h1 = (if isSet (shot_isAnimating h) \<and> \<not> truthy (shot_animationUrl h)
                then h\<lparr>shot_isAnimating := Some False\<rparr> else h)
      in if isSet (shot_isGeneratingAudio h1) \<and> \<not> truthy (shot_audioUrl h1)
         then h1\<lparr>shot_isGeneratingAudio := Some False\<rparr> else h1)"

definition clearStaleImage :: "shot \<Rightarrow> shot" where
  "clearStaleImage h =
     (if isSet (shot_isGenerating h) \<and> \<not> truthy (shot_imageUrl h)
      then h\<lparr>shot_isGenerating := Some False\<rparr> else h)"

definition clearStaleCharacter :: "character \<Rightarrow> character" where
  "clearStaleCharacter c =
     (if isSet (char_isGenerating c) \<and> \<not> truthy (char_referenceImageUrl c)
      then c\<lparr>char_isGenerating := Some False\<rparr> else c)"

subsection \<open>Batches: \<open>generateAllImages\<close>, \<open>animateSelected\<close>, \<open>generateAllAudio\<close>\<close>

text \<open>
  The three batch functions are the same loop with other constants and another job
  function. \<open>concurrency\<close> is the constant of that name in each of them, \<open>waveDelay\<close> the
  milliseconds of the \<open>setTimeout\<close> between two batches.
\<close>

datatype job_kind = Image_job | Video_job | Audio_job

fun concurrency :: "job_kind \<Rightarrow> nat" where
  "concurrency Image_job = 5"
| "concurrency Video_job = 3"
| "concurrency Audio_job = 10"

fun waveDelay :: "job_kind \<Rightarrow> nat" where
  "waveDelay Image_job = 500"
| "waveDelay Video_job = 1000"
| "waveDelay Audio_job = 200"

text \<open>
  An element \<open>{ sceneId, shot }\<close> of a work list. \<open>shot\<close> is a reference to the shot
  object of the store: the model keeps its position (scene index, shot index), and reads
  the shot there whenever the code reads through the reference.
\<close>

datatype job = Job (job_sceneId: string) (job_scene: nat) (job_shot: nat)

text \<open>Every shot of the store with its job, in the order of the two nested \<open>for\<close> loops.\<close>

definition shotJobs :: "story \<Rightarrow> (job \<times> shot) list" where
  "shotJobs st =
     concat (map (\<lambda>(i, s). map (\<lambda>(j, h). (Job (scene_id s) i j, h)) (enumerate 0 (scene_shots s)))
                 (enumerate 0 (scenes st)))"

text \<open>The work lists, by the conditions of the three collecting loops.\<close>

definition shotsToGenerate :: "story \<Rightarrow> job list" where
  "shotsToGenerate st =
     map fst (filter (\<lambda>(job, h). \<not> truthy (shot_imageUrl h) \<and> \<not> isSet (shot_isGenerating h))
                     (shotJobs st))"

definition shotsToAnimate :: "string list \<Rightarrow> story \<Rightarrow> job list" where
  "shotsToAnimate selectedForAnimation st =
     map fst (filter (\<lambda>(job, h). shot_id h \<in> set selectedForAnimation
                                   \<and> \<not> isSet (shot_isAnimating h) \<and> \<not> truthy (shot_animationUrl h))
                     (shotJobs st))"

definition shotsNeedingAudio :: "story \<Rightarrow> job list" where
  "shotsNeedingAudio st =
     map fst (filter (\<lambda>(job, h). \<not> truthy (shot_audioUrl h) \<and> \<not> isSet (shot_isGeneratingAudio h)
                                   \<and> shot_subtitle h \<noteq> [])
                     (shotJobs st))"

text \<open>
  What the request of a job comes to: \<open>Rejected\<close> when \<open>fetch\<close> rejects, the answer is not
  JSON or it has an \<open>error\<close> field (the job function throws into its \<open>catch\<close>);
  \<open>Answered url\<close> otherwise, with the URL field of the answer.
\<close>

datatype outcome = Rejected | Answered "string option"

text \<open>
  What a batch leaves behind: the store, the counter \<open>completed\<close>, the trace of the
  scheduler (a job function called, a job function returned, a delay slept), and the audio
  generations that \<open>animateShot\<close> fires without awaiting them.
\<close>

datatype event = Started job | Finished job | Slept nat

record run =
  run_story :: story
  completed :: nat
  events :: "event list"
  background :: "job list"

text \<open>
  The synchronous start of a job function, up to its \<open>await fetch(...)\<close>: the in-progress
  flag is set. The result says whether a request was sent: \<open>animateShot\<close> returns at once
  for a shot without an image, the \<open>generateAudio\<close> of \<open>AudioGenerator\<close> for a scene id
  that the store does not have.
\<close>

definition launchJob :: "job_kind \<Rightarrow> job \<Rightarrow> story \<Rightarrow> bool \<times> story" where
  "launchJob kind job st =
     (case shotAt st (job_scene job) (job_shot job) of
        None \<Rightarrow> (False, st)
      | Some h \<Rightarrow>
          (case kind of
             Image_job \<Rightarrow> (True, setGeneratingShot (job_sceneId job) (shot_id h) True st)
           | Video_job \<Rightarrow>
               if \<not> truthy (shot_imageUrl h) then (False, st)
               else (True, setAnimatingShot (job_sceneId job) (shot_id h) True st)
           | Audio_job \<Rightarrow>
               if \<not> list_ex (\<lambda>s. scene_id s = job_sceneId job) (scenes st) then (False, st)
               else (True, setGeneratingAudioShot (job_sceneId job) (shot_id h) True st)))"

text \<open>
  The rest of a job function once its request has come back: the \<open>updateShot\<close> of the
  success path, or the \<open>catch\<close> that clears the flag. After a successful animation,
  \<open>animateShot\<close> starts \<open>generateAudio\<close> without awaiting it when audio is enabled and the
  shot has a subtitle and no audio; that call sets the audio flag before its own request.
\<close>

definition settleJob :: "job_kind \<Rightarrow> bool \<Rightarrow> outcome \<Rightarrow> job \<Rightarrow> run \<Rightarrow> run" where
  "settleJob kind enableAudio result job r =
     (case shotAt (run_story r) (job_scene job) (job_shot job) of
        None \<Rightarrow> r
      | Some h \<Rightarrow>
          (case kind of
             Image_job \<Rightarrow>
               (case result of
                  Rejected \<Rightarrow>
                    r\<lparr>run_story := setGeneratingShot (job_sceneId job) (shot_id h) False (run_story r)\<rparr>
                | Answered url \<Rightarrow>
                    r\<lparr>run_story := updateShot (job_sceneId job) (shot_id h)
                          (\<lambda>x. x\<lparr>shot_imageUrl := url, shot_isGenerating := Some False\<rparr>) (run_story r)\<rparr>)
           | Video_job \<Rightarrow>
               (case result of
                  Rejected \<Rightarrow>
                    r\<lparr>run_story := setAnimatingShot (job_sceneId job) (shot_id h) False (run_story r)\<rparr>
                | Answered url \<Rightarrow>
                    (let st1 = updateShot (job_sceneId job) (shot_id h)
                                 (\<lambda>x. x\<lparr>shot_animationUrl := url, shot_isAnimating := Some False\<rparr>)
                                 (run_story r)
                     in case shotAt st1 (job_scene job) (job_shot job) of
                          None \<Rightarrow> r\<lparr>run_story := st1\<rparr>
                        | Some h1 \<Rightarrow>
                            if enableAudio \<and> shot_subtitle h1 \<noteq> [] \<and> \<not> truthy (shot_audioUrl h1)
                            then r\<lparr>run_story := setGeneratingAudioShot (job_sceneId job) (shot_id h1) True st1,
                                   background := background r @ [job]\<rparr>
                            else r\<lparr>run_story := st1\<rparr>))
           | Audio_job \<Rightarrow>
               (case result of
                  Rejected \<Rightarrow>
                    r\<lparr>run_story := setGeneratingAudioShot (job_sceneId job) (shot_id h) False (run_story r)\<rparr>
                | Answered url \<Rightarrow>
                    r\<lparr>run_story := updateShot (job_sceneId job) (shot_id h)
                          (\<lambda>x. x\<lparr>shot_audioUrl := url, shot_isGeneratingAudio := Some False\<rparr>)
                          (run_story r)\<rparr>)))"

text \<open>
  The callback of \<open>batch.map\<close> after its \<open>await\<close>: the job function has returned, whatever
  its request came to, and \<open>completed++\<close>.
\<close>

definition finishJob :: "job_kind \<Rightarrow> bool \<Rightarrow> (job \<Rightarrow> outcome) \<Rightarrow> bool \<Rightarrow> job \<Rightarrow> run \<Rightarrow> run" where
  "finishJob kind enableAudio respond launched job r =
     (let r1 = (if launched then settleJob kind enableAudio (respond job) job r else r)
      in r1\<lparr>completed := Suc (completed r1), events := events r1 @ [Finished job]\<rparr>)"

text \<open>The starts of a batch, in the order of \<open>batch.map\<close>, with whether each sent a request.\<close>

fun launchAll :: "job_kind \<Rightarrow> job list \<Rightarrow> story \<Rightarrow> (job \<times> bool) list \<times> story" where
  "launchAll kind [] st = ([], st)"
| "launchAll kind (job # rest) st =
     (let (launched, st1) = launchJob kind job st;
          (flags, st2) = launchAll kind rest st1
      in ((job, launched) # flags, st2))"

text \<open>
  \<open>await Promise.all(batch.map(...))\<close>: every job of the batch is started, then the jobs
  finish in the order \<open>order batch\<close> that the environment chooses, and only then does the
  \<open>await\<close> return.
\<close>

definition runWave ::
  "job_kind \<Rightarrow> bool \<Rightarrow> (job \<Rightarrow> outcome) \<Rightarrow> (job list \<Rightarrow> job list) \<Rightarrow> job list \<Rightarrow> run \<Rightarrow> run" where
  "runWave kind enableAudio respond order batch r =
     (let (flags, st1) = launchAll kind batch (run_story r);
          r1 = r\<lparr>run_story := st1, events := events r @ map Started batch\<rparr>
      in fold (\<lambda>job. finishJob kind enableAudio respond (map_of flags job = Some True) job)
              (order batch) r1)"

lemma concurrency_pos: "0 < concurrency kind"
  by (cases kind) simp_all

text \<open>
  The loop \<open>for (let i = 0; i < jobs.length; i += concurrency)\<close> with its body: the batch
  \<open>jobs.slice(i, i + concurrency)\<close>, the wave, and the delay when another batch follows.
\<close>

function runWaves ::
  "job_kind \<Rightarrow> bool \<Rightarrow> (job \<Rightarrow> outcome) \<Rightarrow> (job list \<Rightarrow> job list) \<Rightarrow> job list \<Rightarrow> nat \<Rightarrow> run \<Rightarrow> run" where
  "runWaves kind enableAudio respond order jobs i r =
     (if i < length jobs then
        (let batch = take (concurrency kind) (drop i jobs);
             r1 = runWave kind enableAudio respond order batch r;
             r2 = (if i + concurrency kind < length jobs
                   then r1\<lparr>events := events r1 @ [Slept (waveDelay kind)]\<rparr> else r1)
         in runWaves kind enableAudio respond order jobs (i + concurrency kind) r2)
      else r)"
  by pat_completeness auto
termination
proof (relation "measure (\<lambda>(kind, enableAudio, respond, order, jobs, i, r). length jobs - i)", goal_cases)
  case 1
  show ?case by simp
next
  case (2 kind enableAudio respond order jobs i)
  then show ?case using concurrency_pos [of kind] by simp
qed

definition startRun :: "story \<Rightarrow> run" where
  "startRun st = \<lparr>run_story = st, completed = 0, events = [], background = []\<rparr>"

definition generateAllImages :: "(job \<Rightarrow> outcome) \<Rightarrow> (job list \<Rightarrow> job list) \<Rightarrow> story \<Rightarrow> run" where
  "generateAllImages respond order st =
     runWaves Image_job False respond order (shotsToGenerate st) 0 (startRun st)"

definition animateSelected ::
  "bool \<Rightarrow> (job \<Rightarrow> outcome) \<Rightarrow> (job list \<Rightarrow> job list) \<Rightarrow> string list \<Rightarrow> story \<Rightarrow> run" where
  "animateSelected enableAudio respond order selectedForAnimation st =
     runWaves Video_job enableAudio respond order (shotsToAnimate selectedForAnimation st) 0 (startRun st)"

text \<open>\<open>generateAllAudio\<close> alerts and returns (\<open>None\<close>) when audio is disabled.\<close>

definition generateAllAudio ::
  "bool \<Rightarrow> (job \<Rightarrow> outcome) \<Rightarrow> (job list \<Rightarrow> job list) \<Rightarrow> story \<Rightarrow> run option" where
  "generateAllAudio enableAudio respond order st =
     (if \<not> enableAudio then None
      else Some (runWaves Audio_job enableAudio respond order (shotsNeedingAudio st) 0 (startRun st)))"

subsection \<open>The schedule that the specification describes\<close>

text \<open>
  The waves of the specification: the jobs cut into consecutive groups of \<open>c\<close>, the last
  one with what remains.
\<close>

function specWaves :: "nat \<Rightarrow> 'a list \<Rightarrow> 'a list list" where
  "specWaves c xs = (if c = 0 \<or> xs = [] then [] else take c xs # specWaves c (drop c xs))"
  by pat_completeness auto
termination
  by (relation "measure (\<lambda>(c, xs). length xs)") auto

text \<open>
  The trace of the specification: in each wave all its jobs start, then all of them
  finish, and a delay stands between two waves.
\<close>

fun specSchedule :: "job_kind \<Rightarrow> (job list \<Rightarrow> job list) \<Rightarrow> job list list \<Rightarrow> event list" where
  "specSchedule kind order [] = []"
| "specSchedule kind order (w # ws) =
     map Started w @ map Finished (order w)
     @ (if ws = [] then [] else Slept (waveDelay kind) # specSchedule kind order ws)"

text \<open>
  The largest number of jobs in flight at any point of a trace, counted from \<open>n\<close> jobs in
  flight before it.
\<close>

fun peak :: "nat \<Rightarrow> event list \<Rightarrow> nat" where
  "peak n [] = n"
| "peak n (Started job # es) = max n (peak (Suc n) es)"
| "peak n (Finished job # es) = max n (peak (n - 1) es)"
| "peak n (Slept ms # es) = max n (peak n es)"


text \<open>
  A story for concrete runs: the first shot and the character are stuck in image
  generation without an image, the third shot is stuck in animation and audio generation
  without a clip or audio.
\<close>

definition demoShot :: "string \<Rightarrow> shot" where
  "demoShot i =
     \<lparr>shot_id = i, shot_subtitle = ''Once upon a time'', shot_location = ''Forest'',
      shot_content = ''A fox runs'', shot_imageUrl = None, shot_isGenerating = None,
      shot_isAnimating = None, shot_animationUrl = None, shot_audioUrl = None,
      shot_isGeneratingAudio = None\<rparr>"

definition demoStory :: story where
  "demoStory =
     \<lparr>story_title = ''Fox'', story_synopsis = ''A fox'',
      characters = [\<lparr>char_name = ''Fox'', char_description = ''red'', char_prompt = Some ''a red fox'',
                     char_referenceImageUrl = None, char_isGenerating = Some True\<rparr>],
      scenes =
        [\<lparr>scene_id = ''scene-0'', scene_title = ''One'', scene_description = ''first'',
          scene_shots =
            [(demoShot ''shot-0-0'')\<lparr>shot_isGenerating := Some True\<rparr>,
             (demoShot ''shot-0-1'')\<lparr>shot_imageUrl := Some ''https://img/1.png''\<rparr>]\<rparr>,
         \<lparr>scene_id = ''scene-1'', scene_title = ''Two'', scene_description = ''second'',
          scene_shots =
            [(demoShot ''shot-1-0'')\<lparr>shot_imageUrl := Some ''https://img/2.png'',
                                     shot_isAnimating := Some True,
                                     shot_isGeneratingAudio := Some True\<rparr>]\<rparr>],
      story_style = Some ''3D Cartoon'', story_aspectRatio = Some ''16:9''\<rparr>"

declare specWaves.simps [simp del]

declare runWaves.simps [simp del]



text \<open>Seven jobs for concrete runs, and a provider that rejects every request.\<close>

definition sevenJobs :: "job list" where
  "sevenJobs = map (Job ''scene-0'' 0) [0, 1, 2, 3, 4, 5, 6]"

definition rejectAll :: "job \<Rightarrow> outcome" where
  "rejectAll job = Rejected"

section \<open>Duration Normalizer: \<open>src/utils/audioExtender.ts\<close>\<close>

subsection \<open>The numbers of the code\<close>

text \<open>
  A \<open>number\<close> of the code is an IEEE 754 double. Every finite double is a rational
  number, and the model computes with rationals: an arithmetic operation of the code is the
  exact operation followed by \<open>roundDouble\<close>, the rounding to the nearest double, a tie
  going to the even significand. \<open>expo x\<close> is the binary exponent of \<open>x\<close> (the
  \<open>e\<close> with \<open>2^e \<le> |x| < 2^(e+1)\<close>), and \<open>ulp x\<close> the distance of neighbouring
  doubles at \<open>x\<close>: 52 binary places below the exponent, and \<open>2^-1074\<close> for every
  \<open>x\<close> below \<open>2^-1022\<close> (gradual underflow). The rounding has no largest exponent: a
  result of magnitude \<open>2^1024\<close> or more stands for \<open>Infinity\<close>. \<open>NaN\<close> is not
  modelled.
\<close>

definition rne :: "rat \<Rightarrow> int" where
  "rne x =
     (let f = \<lfloor>x\<rfloor>; d = x - of_int f
      in if d < 1 / 2 then f
         else if 1 / 2 < d then f + 1
         else if even f then f else f + 1)"

definition expo :: "rat \<Rightarrow> int" where
  "expo x =
     (case quotient_of \<bar>x\<bar> of
        (p, q) \<Rightarrow>
          (let d = bitlen p - bitlen q
           in if 2 powi d \<le> \<bar>x\<bar> then d else d - 1))"

definition ulp :: "rat \<Rightarrow> rat" where
  "ulp x = 2 powi (max (expo x) (- 1022) - 52)"

definition roundDouble :: "rat \<Rightarrow> rat" where
  "roundDouble x = of_int (rne (x / ulp x)) * ulp x"

text \<open>The finite doubles: the numbers that the rounding leaves as they are.\<close>

definition isDouble :: "rat \<Rightarrow> bool" where
  "isDouble x = (roundDouble x = x \<and> \<bar>x\<bar> < 2 ^ 1024)"

text \<open>
  \<open>Math.ceil\<close> of a double, which is a double again, and the conversion of a number to
  an \<open>unsigned long\<close> argument of a Web API (Web IDL): \<open>Infinity\<close> converts to 0, a
  finite number is truncated towards zero and reduced modulo \<open>2^32\<close>.
\<close>

definition mathCeil :: "rat \<Rightarrow> rat" where
  "mathCeil x = of_int \<lceil>x\<rceil>"

definition toUnsignedLong :: "rat \<Rightarrow> nat" where
  "toUnsignedLong x =
     (if 2 ^ 1024 \<le> \<bar>x\<bar> then 0
      else nat ((if 0 \<le> x then \<lfloor>x\<rfloor> else \<lceil>x\<rceil>) mod 2 ^ 32))"

subsection \<open>Audio buffers\<close>

text \<open>
  A Web Audio \<open>AudioBuffer\<close>: the channel count, the sample rate in Hz (a whole number,
  as the rates of an \<open>AudioContext\<close> are), the length in sample frames, and one array of
  samples per channel. A sample is a \<open>Float32\<close>; every finite one is a rational number
  (\<open>NaN\<close> and infinities are not modelled). Durations and \<open>targetDuration\<close> are
  doubles, in seconds.
\<close>

record audio_buffer =
  numberOfChannels :: nat
  sampleRate :: nat
  frames :: nat
  channelData :: "rat list list"

text \<open>
  What the Web Audio API guarantees of every \<open>AudioBuffer\<close>: as many channel arrays as
  \<open>numberOfChannels\<close>, each of \<open>length\<close> frames, at least one channel and a positive rate.
\<close>

definition wellFormed :: "audio_buffer \<Rightarrow> bool" where
  "wellFormed b =
     (length (channelData b) = numberOfChannels b
      \<and> list_all (\<lambda>c. length c = frames b) (channelData b)
      \<and> 0 < numberOfChannels b \<and> 0 < sampleRate b)"

text \<open>
  \<open>audioBuffer.duration\<close>: the length over the sample rate, a division of doubles. (The
  length is an \<open>unsigned long\<close> and the rate a \<open>float\<close> holding a whole number, so both
  are doubles as they stand when the length is below \<open>2^32\<close> and the rate below \<open>2^24\<close>.)
\<close>

definition duration :: "audio_buffer \<Rightarrow> rat" where
  "duration b = roundDouble (of_nat (frames b) / of_nat (sampleRate b))"

text \<open>
  \<open>audioContext.createBuffer(channels, length, rate)\<close>: a buffer of silence. It throws
  (\<open>None\<close>) when an argument is zero. (The allocation of the sample arrays is taken to
  succeed.)
\<close>

definition createBuffer :: "nat \<Rightarrow> nat \<Rightarrow> nat \<Rightarrow> audio_buffer option" where
  "createBuffer channels len rate =
     (if channels = 0 \<or> len = 0 \<or> rate = 0 then None
      else Some \<lparr>numberOfChannels = channels, sampleRate = rate, frames = len,
                 channelData = replicate channels (replicate len 0)\<rparr>)"

text \<open>
  \<open>target.set(source)\<close> of a typed array: the source overwrites the target from offset 0;
  it throws (\<open>None\<close>) when the source is longer than the target.
\<close>

definition typedArraySet :: "rat list \<Rightarrow> rat list \<Rightarrow> rat list option" where
  "typedArraySet target source =
     (if length source > length target then None
      else Some (source @ drop (length source) target))"

text \<open>
  The loop \<open>for (channel = 0; channel < audioBuffer.numberOfChannels; channel++)\<close> over
  the channel indices it visits. \<open>getChannelData\<close> throws for a channel that the buffer
  does not have.
\<close>

primrec copyChannels :: "nat list \<Rightarrow> audio_buffer \<Rightarrow> audio_buffer \<Rightarrow> audio_buffer option" where
  "copyChannels [] audioBuffer extendedBuffer = Some extendedBuffer"
| "copyChannels (channel # rest) audioBuffer extendedBuffer =
     (case nth_opt (channelData audioBuffer) channel of
        None \<Rightarrow> None
      | Some originalData \<Rightarrow>
          (case nth_opt (channelData extendedBuffer) channel of
             None \<Rightarrow> None
           | Some extendedData \<Rightarrow>
               (case typedArraySet extendedData originalData of
                  None \<Rightarrow> None
                | Some copied \<Rightarrow>
                    copyChannels rest audioBuffer
                      (extendedBuffer\<lparr>channelData := (channelData extendedBuffer)[channel := copied]\<rparr>))))"

text \<open>
  The length that \<open>createBuffer\<close> receives on line 41:
  \<open>Math.ceil(targetDuration * audioBuffer.sampleRate)\<close>, a product of doubles, converted
  to the \<open>unsigned long\<close> parameter.
\<close>

definition extendedLength :: "audio_buffer \<Rightarrow> rat \<Rightarrow> nat" where
  "extendedLength audioBuffer targetDuration =
     toUnsignedLong (mathCeil (roundDouble (targetDuration * of_nat (sampleRate audioBuffer))))"

text \<open>
  Lines 38 to 54: the new buffer of that length with the original samples copied in.
\<close>

definition extendBuffer :: "audio_buffer \<Rightarrow> rat \<Rightarrow> audio_buffer option" where
  "extendBuffer audioBuffer targetDuration =
     (case createBuffer (numberOfChannels audioBuffer)
             (extendedLength audioBuffer targetDuration)
             (sampleRate audioBuffer) of
        None \<Rightarrow> None
      | Some extendedBuffer \<Rightarrow>
          copyChannels [0..<numberOfChannels audioBuffer] audioBuffer extendedBuffer)"

subsection \<open>\<open>audioBufferToDataUrl\<close>: the WAV encoding\<close>

text \<open>
  \<open>view.setUint16(_, n, true)\<close> and \<open>view.setUint32(_, n, true)\<close>: the \<open>k\<close> low bytes of
  \<open>n\<close>, least significant first (the number is reduced modulo \<open>256 ^ k\<close>).
\<close>

primrec le_bytes :: "nat \<Rightarrow> nat \<Rightarrow> bytes" where
  "le_bytes 0 n = []"
| "le_bytes (Suc k) n = of_nat (n mod 256) # le_bytes k (n div 256)"

text \<open>The number that little-endian bytes denote.\<close>

primrec le_value :: "bytes \<Rightarrow> nat" where
  "le_value [] = 0"
| "le_value (b # bs) = unat b + 256 * le_value bs"

text \<open>\<open>writeString\<close>: one byte per character.\<close>

definition writeString :: "string \<Rightarrow> bytes" where
  "writeString str = map of_char str"

text \<open>
  \<open>Math.max(-1, Math.min(1, sample)) * 0x7FFF\<close>, then \<open>setInt16\<close>, which drops the
  fraction (towards zero) and stores the two's complement, least significant byte first.
\<close>

definition toInt16 :: "rat \<Rightarrow> int" where
  "toInt16 sample =
     (let x = max (- 1) (min 1 sample) * 32767
      in if 0 \<le> x then \<lfloor>x\<rfloor> else \<lceil>x\<rceil>)"

definition sampleBytes :: "rat \<Rightarrow> bytes" where
  "sampleBytes sample = le_bytes 2 (nat (toInt16 sample mod 65536))"

text \<open>
  \<open>audioBuffer.getChannelData(channel)[i]\<close>. A read outside the array is \<open>undefined\<close>,
  which \<open>setInt16\<close> stores as 0.
\<close>

definition sampleAt :: "audio_buffer \<Rightarrow> nat \<Rightarrow> nat \<Rightarrow> rat" where
  "sampleAt b channel i =
     (case nth_opt (channelData b) channel of
        None \<Rightarrow> 0
      | Some data \<Rightarrow> (case nth_opt data i of None \<Rightarrow> 0 | Some sample \<Rightarrow> sample))"

definition wavHeader :: "audio_buffer \<Rightarrow> bytes" where
  "wavHeader b =
     writeString ''RIFF''
     @ le_bytes 4 (36 + frames b * numberOfChannels b * 2)
     @ writeString ''WAVE''
     @ writeString ''fmt ''
     @ le_bytes 4 16
     @ le_bytes 2 1
     @ le_bytes 2 (numberOfChannels b)
     @ le_bytes 4 (sampleRate b)
     @ le_bytes 4 (sampleRate b * numberOfChannels b * 2)
     @ le_bytes 2 (numberOfChannels b * 2)
     @ le_bytes 2 16
     @ writeString ''data''
     @ le_bytes 4 (frames b * numberOfChannels b * 2)"

text \<open>The two nested loops that write the samples: frame by frame, channel by channel.\<close>

definition frameBytes :: "audio_buffer \<Rightarrow> nat \<Rightarrow> bytes" where
  "frameBytes b i = concat (map (\<lambda>channel. sampleBytes (sampleAt b channel i)) [0..<numberOfChannels b])"

definition wavData :: "audio_buffer \<Rightarrow> bytes" where
  "wavData b = concat (map (frameBytes b) [0..<frames b])"

text \<open>
  The bytes of the WAV file that \<open>audioBufferToDataUrl\<close> builds, header first. The
  function returns them as \<open>data:audio/wav;base64,...\<close>.
\<close>

definition audioBufferToWav :: "audio_buffer \<Rightarrow> bytes" where
  "audioBufferToWav b = wavHeader b @ wavData b"

subsection \<open>\<open>extendAudioToTargetDuration\<close>\<close>

text \<open>
  What the function returns: the data URL it was given, or the data URL
  \<open>data:audio/wav;base64,...\<close> of the WAV bytes.
\<close>

datatype audio_url = Given string | Wav_data_url bytes

text \<open>
  \<open>decodeAudioData\<close> stands for lines 15 to 26 (splitting the data URL, \<open>atob\<close>, and the
  browser's decoder): the decoded buffer, or \<open>None\<close> when any of them throws. Every throw
  inside the function ends in the \<open>catch\<close>, which returns the URL it was given.
\<close>

definition extendAudioToTargetDuration ::
  "(string \<Rightarrow> audio_buffer option) \<Rightarrow> string \<Rightarrow> rat \<Rightarrow> audio_url" where
  "extendAudioToTargetDuration decodeAudioData audioDataUrl targetDuration =
     (case decodeAudioData audioDataUrl of
        None \<Rightarrow> Given audioDataUrl
      | Some audioBuffer \<Rightarrow>
          if duration audioBuffer \<ge> targetDuration then Given audioDataUrl
          else (case extendBuffer audioBuffer targetDuration of
                  None \<Rightarrow> Given audioDataUrl
                | Some extendedBuffer \<Rightarrow> Wav_data_url (audioBufferToWav extendedBuffer)))"

text \<open>A decoded clip for concrete runs: one channel at 48 kHz with the two samples 1 and -1.\<close>

definition twoFrames :: audio_buffer where
  "twoFrames = \<lparr>numberOfChannels = 1, sampleRate = 48000, frames = 2, channelData = [[1, - 1]]\<rparr>"

text \<open>
  The buffer that the specification of the normalizer describes for a clip shorter than the
  target: the same channel count and sample rate, each channel the original samples
  followed by silence. \<open>paddedTo b len\<close> has \<open>len\<close> frames, and \<open>specPaddedBuffer\<close> has
  the \<open>Math.ceil(targetDuration * sampleRate)\<close> frames of the target, the product being
  the product of doubles.
\<close>

definition paddedTo :: "audio_buffer \<Rightarrow> nat \<Rightarrow> audio_buffer" where
  "paddedTo b len =
     \<lparr>numberOfChannels = numberOfChannels b,
      sampleRate = sampleRate b,
      frames = len,
      channelData = map (\<lambda>samples. samples @ replicate (len - frames b) 0) (channelData b)\<rparr>"

definition specPaddedBuffer :: "audio_buffer \<Rightarrow> rat \<Rightarrow> audio_buffer" where
  "specPaddedBuffer b targetDuration =
     paddedTo b (nat \<lceil>roundDouble (targetDuration * of_nat (sampleRate b))\<rceil>)"
section \<open>Segment Processor: \<open>src/utils/videoComposer.ts\<close> and \<open>src/utils/videoAudioMerger.ts\<close>\<close>

text \<open>
  What the code writes with \<open>console.warn\<close> and \<open>console.error\<close>, one constructor per
  message (the \<open>console.log\<close> lines are progress reports and are left out):
  \<^item> \<open>Subtitle_ignored\<close>: "Subtitle ignored: ffmpeg.wasm does not support text rendering (no fonts)";
  \<^item> \<open>Empty_audio_data\<close>: "Empty audio data, skipping audio";
  \<^item> \<open>Failed_to_load_audio\<close>: "Failed to load audio:" (an error);
  \<^item> \<open>Continuing_without_audio\<close>: "Continuing without audio...";
  \<^item> \<open>Could_not_delete_temp_audio\<close>: "Warning: Could not delete temp_audio.mp3";
  \<^item> \<open>Input_file_missing f\<close>: "Input file missing: f" (an error);
  \<^item> \<open>Output_not_created_or_empty f\<close>: "Output file not created or empty: f" (an error);
  \<^item> \<open>Video_processing_error f\<close>: "Video processing error for f:" (an error).
\<close>

datatype console_entry =
    Subtitle_ignored
  | Empty_audio_data
  | Failed_to_load_audio
  | Continuing_without_audio
  | Could_not_delete_temp_audio
  | Input_file_missing string
  | Output_not_created_or_empty string
  | Video_processing_error string

text \<open>
  The errors that \<open>processVideo\<close> and \<open>mergeVideoAudio\<close> throw: the two \<open>new Error(...)\<close>
  of \<open>processVideo\<close>, a read of a file that the backend does not have, a rejected
  \<open>exec\<close>, and a failed download or base64 decoding.
\<close>

datatype ffmpeg_error =
    Input_file_not_found string
  | Output_file_not_created string
  | No_such_file string
  | Exec_rejected
  | Fetch_failed string
  | Invalid_base64

text \<open>
  The encoding backend as the code sees it: the files of its virtual file system, the
  argument vectors passed to \<open>ffmpeg.exec\<close> so far, and the console.
\<close>

record session =
  files :: "string \<rightharpoonup> bytes"
  commands :: "string list list"
  console :: "console_entry list"

text \<open>
  \<open>ffmpeg.exec\<close> is the external encoder: a parameter that maps an argument vector and
  the files to the new files, or to \<open>None\<close> when the call rejects.
\<close>

type_synonym encoder = "string list \<Rightarrow> (string \<rightharpoonup> bytes) \<Rightarrow> (string \<rightharpoonup> bytes) option"

text \<open>\<open>audioUrl && audioUrl.length > 10\<close> and \<open>subtitle && subtitle.length > 0\<close>\<close>

definition hasAudio :: "string option \<Rightarrow> bool" where
  "hasAudio audioUrl = (case audioUrl of None \<Rightarrow> False | Some a \<Rightarrow> a \<noteq> [] \<and> length a > 10)"

definition hasSubtitle :: "string option \<Rightarrow> bool" where
  "hasSubtitle subtitle = (case subtitle of None \<Rightarrow> False | Some t \<Rightarrow> t \<noteq> [] \<and> length t > 0)"

definition warn :: "console_entry \<Rightarrow> session \<Rightarrow> session" where
  "warn e s = s\<lparr>console := console s @ [e]\<rparr>"

text \<open>
  "Just copy video": \<open>writeFile(outputFile, await readFile(videoFile))\<close>. The read throws
  when the file is not there.
\<close>

definition copyVideo :: "string \<Rightarrow> string \<Rightarrow> session \<Rightarrow> ffmpeg_error option \<times> session" where
  "copyVideo videoFile outputFile s =
     (case files s videoFile of
        None \<Rightarrow> (Some (No_such_file videoFile), s)
      | Some videoData \<Rightarrow> (None, s\<lparr>files := (files s)(outputFile \<mapsto> videoData)\<rparr>))"

text \<open>
  The \<open>try\<close> block that loads the audio (lines 109 to 131 of \<open>videoComposer.ts\<close>).
  \<open>atob\<close> (with the loop that turns its result into bytes) and \<open>fetchFile\<close> are
  parameters, \<open>None\<close> when they throw.
\<close>

datatype audio_load = Loaded bytes | Empty_payload | Load_failed

definition loadAudio ::
  "(string \<Rightarrow> bytes option) \<Rightarrow> (string \<Rightarrow> bytes option) \<Rightarrow> string \<Rightarrow> audio_load" where
  "loadAudio atob fetchFile audioUrl =
     (if startsWith audioUrl ''data:'' then
        (case nth_opt (splitOn CHR '','' audioUrl) 1 of
           None \<Rightarrow> Empty_payload
         | Some base64Data \<Rightarrow>
             if base64Data = [] then Empty_payload
             else (case atob base64Data of None \<Rightarrow> Load_failed | Some bs \<Rightarrow> Loaded bs))
      else (case fetchFile audioUrl of None \<Rightarrow> Load_failed | Some audioData \<Rightarrow> Loaded audioData))"

text \<open>The argument vector of the one \<open>ffmpeg.exec\<close> call of \<open>processVideo\<close>.\<close>

definition muxArgs :: "string \<Rightarrow> string \<Rightarrow> string list" where
  "muxArgs videoFile outputFile =
     [''-i'', videoFile, ''-i'', ''temp_audio.mp3'', ''-c:v'', ''copy'', ''-c:a'', ''aac'',
      ''-b:a'', ''128k'', ''-shortest'', ''-movflags'', ''+faststart'', ''-y'', outputFile]"

text \<open>
  The body of \<open>processVideo\<close>, inside its outer \<open>try\<close>. The \<open>quality\<close> parameter is not
  read by the function and is left out.
\<close>

definition processVideoBody ::
  "encoder \<Rightarrow> (string \<Rightarrow> bytes option) \<Rightarrow> (string \<Rightarrow> bytes option)
     \<Rightarrow> string \<Rightarrow> string option \<Rightarrow> string option \<Rightarrow> string \<Rightarrow> session
     \<Rightarrow> ffmpeg_error option \<times> session" where
  "processVideoBody exec atob fetchFile videoFile audioUrl subtitle outputFile s =
     (case files s videoFile of
        None \<Rightarrow> (Some (Input_file_not_found videoFile), warn (Input_file_missing videoFile) s)
      | Some inputCheck \<Rightarrow>
          (case (if hasAudio audioUrl then audioUrl else None) of
             None \<Rightarrow>
               copyVideo videoFile outputFile (if hasSubtitle subtitle then warn Subtitle_ignored s else s)
           | Some url \<Rightarrow>
               (case loadAudio atob fetchFile url of
                  Empty_payload \<Rightarrow> copyVideo videoFile outputFile (warn Empty_audio_data s)
                | Load_failed \<Rightarrow>
                    copyVideo videoFile outputFile
                      (warn Continuing_without_audio (warn Failed_to_load_audio s))
                | Loaded bs \<Rightarrow>
                    (let s1 = s\<lparr>files := (files s)(''temp_audio.mp3'' \<mapsto> bs)\<rparr>;
                         s2 = (if hasSubtitle subtitle then warn Subtitle_ignored s1 else s1);
                         argv = muxArgs videoFile outputFile;
                         s3 = s2\<lparr>commands := commands s2 @ [argv]\<rparr>
                     in (case exec argv (files s3) of
                           None \<Rightarrow> (Some Exec_rejected, s3)
                         | Some fs \<Rightarrow>
                             (let s4 = s3\<lparr>files := fs\<rparr>
                              in (case fs outputFile of
                                    None \<Rightarrow>
                                      (Some (Output_file_not_created outputFile),
                                       warn (Output_not_created_or_empty outputFile) s4)
                                  | Some outputCheck \<Rightarrow>
                                      if length outputCheck = 0
                                      then (Some (Output_file_not_created outputFile),
                                            warn (Output_not_created_or_empty outputFile) s4)
                                      else (case fs ''temp_audio.mp3'' of
                                              None \<Rightarrow> (None, warn Could_not_delete_temp_audio s4)
                                            | Some _ \<Rightarrow>
                                                (None, s4\<lparr>files := fs(''temp_audio.mp3'' := None)\<rparr>)))))))))"

text \<open>\<open>processVideo\<close>: the outer \<open>catch\<close> reports the error and throws it again.\<close>

definition processVideo ::
  "encoder \<Rightarrow> (string \<Rightarrow> bytes option) \<Rightarrow> (string \<Rightarrow> bytes option)
     \<Rightarrow> string \<Rightarrow> string option \<Rightarrow> string option \<Rightarrow> string \<Rightarrow> session
     \<Rightarrow> ffmpeg_error option \<times> session" where
  "processVideo exec atob fetchFile videoFile audioUrl subtitle outputFile s =
     (case processVideoBody exec atob fetchFile videoFile audioUrl subtitle outputFile s of
        (None, s') \<Rightarrow> (None, s')
      | (Some e, s') \<Rightarrow> (Some e, warn (Video_processing_error videoFile) s'))"

subsection \<open>\<open>mergeVideoAudio\<close>, the merger of the interactive preview\<close>






text \<open>
  An encoder for concrete runs: it writes a fixed three-byte result under the last
  argument and keeps every other file.
\<close>

definition stubEncoder :: encoder where
  "stubEncoder argv fs = (if argv = [] then None else Some (fs(last argv \<mapsto> [1, 2, 3])))"

definition oneClip :: session where
  "oneClip = \<lparr>files = [''input0.mp4'' \<mapsto> [7, 7]], commands = [], console = []\<rparr>"


section \<open>Basic facts about the list helpers\<close>

lemma nth_opt_eq: "nth_opt xs i = (if i < length xs then Some (xs ! i) else None)"
proof (induction xs arbitrary: i)
  case Nil
  show ?case by simp
next
  case (Cons x xs)
  then show ?case by (cases i) simp_all
qed

section \<open>Properties of the Provider Fallback Resolver\<close>

lemma defaultInput_eq:
  "buildInput (getModelConfig DEFAULT_MODEL) img =
     [(''motion_bucket_id'', PNum 127), (''cond_aug'', PDec 2 2),
      (''video_length'', PStr ''25_frames_with_svd_xt''),
      (''sizing_strategy'', PStr ''maintain_aspect_ratio''),
      (''frames_per_second'', PNum 6), (''input_image'', PStr img)]"
  by (simp add: getModelConfig_def MODEL_CONFIGS_def DEFAULT_MODEL_def buildInput_def)

lemma veo_model: "configuredModel veoRequest = ''google/veo-3''"
  by (simp add: configuredModel_def veoRequest_def)

lemma plain_model: "configuredModel plainRequest = DEFAULT_MODEL"
  by (simp add: plainRequest_def configuredModel_def)

lemma veo_input:
  "buildInput (getModelConfig ''google/veo-3'') ''https://replicate.delivery/a.png'' =
     [(''duration'', PNum 5), (''aspect_ratio'', PStr ''16:9''),
      (''prompt'', PStr natural_motion), (''image'', PStr ''https://replicate.delivery/a.png'')]"
  by (simp add: getModelConfig_def MODEL_CONFIGS_def buildInput_def)

lemma veo_not_default: "''google/veo-3'' \<noteq> DEFAULT_MODEL"
  by (simp add: DEFAULT_MODEL_def)

lemma boom_generic: "\<not> is404Error ''boom''"
  by (simp add: is404Error_def)

lemma not_found_expired: "is404Error ''Request failed: 404 Not Found''"
  by (simp add: is404Error_def)

text \<open>
  Claim C1, as the handler has it. The configured model fails with a generic error (its
  message is not of the 404 class). If the configured model is not \<open>DEFAULT_MODEL\<close>, the
  attempts are exactly two: the configured model, then \<open>DEFAULT_MODEL\<close> with the default
  model's parameter shape and the same image URL under \<open>input_image\<close>. When that second
  attempt succeeds the response carries the \<open>warning\<close> field that names the fallback; when
  it fails the response is the asset-expired response (a 404-class message) or status 500
  with the fallback's own message, and no further field. If the configured model is
  \<open>DEFAULT_MODEL\<close>, the only attempt is the first one and its message is returned with
  status 500.
\<close>

theorem C1_one_fallback_attempt:
  assumes img: "req_imageUrl req = Some img" "img \<noteq> []"
    and first: "run (configuredModel req) (buildInput (getModelConfig (configuredModel req)) img) = Inl message"
    and generic: "\<not> is404Error message"
  shows "(configuredModel req \<noteq> DEFAULT_MODEL \<longrightarrow>
            snd (POST run proxy req) =
              [(configuredModel req, buildInput (getModelConfig (configuredModel req)) img),
               (DEFAULT_MODEL, buildInput (getModelConfig DEFAULT_MODEL) img)]
          \<and> map_of (buildInput (getModelConfig DEFAULT_MODEL) img) ''input_image'' = Some (PStr img)
          \<and> (case run DEFAULT_MODEL (buildInput (getModelConfig DEFAULT_MODEL) img) of
                Inr output \<Rightarrow>
                  fst (POST run proxy req) =
                    \<lparr>status = 200,
                     body = [(''videoUrl'', proxy output), (''modelUsed'', DEFAULT_MODEL),
                             (''warning'', ''Original model failed, used fallback: '' @ DEFAULT_MODEL)]\<rparr>
              | Inl fallbackMessage \<Rightarrow>
                  fst (POST run proxy req) =
                    (if is404Error fallbackMessage
                     then \<lparr>status = 400, body = [(''error'', EXPIRED_MESSAGE)]\<rparr>
                     else \<lparr>status = 500,
                           body = [(''error'', if fallbackMessage \<noteq> [] then fallbackMessage
                                               else ''Failed to generate video'')]\<rparr>)))
       \<and> (configuredModel req = DEFAULT_MODEL \<longrightarrow>
            POST run proxy req =
              (\<lparr>status = 500,
                body = [(''error'', if message \<noteq> [] then message else ''Failed to generate video'')]\<rparr>,
               [(DEFAULT_MODEL, buildInput (getModelConfig DEFAULT_MODEL) img)]))"
proof (cases "configuredModel req = DEFAULT_MODEL")
  case True
  with assms show ?thesis
    by (simp add: POST_def Let_def outerCatch_def)
next
  case False
  have key: "map_of (buildInput (getModelConfig DEFAULT_MODEL) img) ''input_image'' = Some (PStr img)"
    by (simp add: defaultInput_eq)
  show ?thesis
  proof (cases "run DEFAULT_MODEL (buildInput (getModelConfig DEFAULT_MODEL) img)")
    case (Inl fallbackMessage)
    with False assms key show ?thesis
      by (simp add: POST_def Let_def outerCatch_def expiredResponse_def)
  next
    case (Inr out)
    with False assms key show ?thesis
      by (simp add: POST_def Let_def)
  qed
qed

theorem C1_one_fallback_attempt_witness:
  "snd (POST (\<lambda>m i. Inl ''boom'') id veoRequest) =
     [(''google/veo-3'',
       [(''duration'', PNum 5), (''aspect_ratio'', PStr ''16:9''),
        (''prompt'', PStr natural_motion), (''image'', PStr ''https://replicate.delivery/a.png'')]),
      (DEFAULT_MODEL,
       [(''motion_bucket_id'', PNum 127), (''cond_aug'', PDec 2 2),
        (''video_length'', PStr ''25_frames_with_svd_xt''),
        (''sizing_strategy'', PStr ''maintain_aspect_ratio''),
        (''frames_per_second'', PNum 6), (''input_image'', PStr ''https://replicate.delivery/a.png'')])]
   \<and> fst (POST (\<lambda>m i. Inl ''boom'') id veoRequest) = \<lparr>status = 500, body = [(''error'', ''boom'')]\<rparr>
   \<and> POST (\<lambda>m i. Inl ''boom'') id plainRequest =
       (\<lparr>status = 500, body = [(''error'', ''boom'')]\<rparr>,
        [(DEFAULT_MODEL,
          [(''motion_bucket_id'', PNum 127), (''cond_aug'', PDec 2 2),
           (''video_length'', PStr ''25_frames_with_svd_xt''),
           (''sizing_strategy'', PStr ''maintain_aspect_ratio''),
           (''frames_per_second'', PNum 6), (''input_image'', PStr ''https://replicate.delivery/a.png'')])])"
proof -
  have a: "req_imageUrl veoRequest = Some ''https://replicate.delivery/a.png''"
    by (simp add: veoRequest_def)
  have b: "req_imageUrl plainRequest = Some ''https://replicate.delivery/a.png''"
    by (simp add: plainRequest_def)
  have n: "''https://replicate.delivery/a.png'' \<noteq> []" by simp
  have r: "(\<lambda>m i. Inl ''boom'' :: string + string) x y = Inl ''boom''" for x :: string and y :: params
    by simp
  from C1_one_fallback_attempt [OF a n r boom_generic, of id]
       C1_one_fallback_attempt [OF b n r boom_generic, of id]
  show ?thesis
    by (simp add: veo_model veo_not_default plain_model veo_input defaultInput_eq boom_generic)
qed

text \<open>
  The claim's last part fails: when the fallback attempt fails as well, the response has no
  marker that the default was tried. It is status 500 with the one field \<open>error\<close>, the
  same response that a job configured with the default model gets without any retry.
\<close>

theorem C1_no_marker_counterexample:
  "length (snd (POST (\<lambda>m i. Inl ''boom'') id veoRequest)) = 2
   \<and> fst (POST (\<lambda>m i. Inl ''boom'') id veoRequest) = \<lparr>status = 500, body = [(''error'', ''boom'')]\<rparr>
   \<and> fst (POST (\<lambda>m i. Inl ''boom'') id veoRequest) = fst (POST (\<lambda>m i. Inl ''boom'') id plainRequest)
   \<and> map_of (body (fst (POST (\<lambda>m i. Inl ''boom'') id veoRequest))) ''warning'' = None"
  by (simp add: POST_def veoRequest_def plainRequest_def configuredModel_def Let_def
      veo_input veo_not_default boom_generic outerCatch_def)

text \<open>
  Claim C2. When the first attempt fails with a message of the 404 class (it contains
  \<open>404\<close> or \<open>Not Found\<close>), whatever the configured model, the handler makes no further
  attempt: the trace is the one attempt, and the response is status 400 with the message
  that tells the caller to regenerate the image.
\<close>

theorem C2_asset_expired_no_retry:
  assumes "req_imageUrl req = Some img" and "img \<noteq> []"
    and "run (configuredModel req) (buildInput (getModelConfig (configuredModel req)) img) = Inl message"
    and "is404Error message"
  shows "POST run proxy req =
           (\<lparr>status = 400, body = [(''error'', EXPIRED_MESSAGE)]\<rparr>,
            [(configuredModel req, buildInput (getModelConfig (configuredModel req)) img)])"
  using assms by (simp add: POST_def expiredResponse_def Let_def)

theorem C2_asset_expired_no_retry_witness:
  "POST (\<lambda>m i. Inl ''Request failed: 404 Not Found'') id veoRequest
   = (\<lparr>status = 400, body = [(''error'', EXPIRED_MESSAGE)]\<rparr>,
      [(''google/veo-3'',
        [(''duration'', PNum 5), (''aspect_ratio'', PStr ''16:9''),
         (''prompt'', PStr natural_motion), (''image'', PStr ''https://replicate.delivery/a.png'')])])"
proof -
  have a: "req_imageUrl veoRequest = Some ''https://replicate.delivery/a.png''"
    by (simp add: veoRequest_def)
  have n: "''https://replicate.delivery/a.png'' \<noteq> []" by simp
  have r: "(\<lambda>m i. Inl ''Request failed: 404 Not Found'' :: string + string) x y
             = Inl ''Request failed: 404 Not Found''" for x :: string and y :: params
    by simp
  from C2_asset_expired_no_retry [OF a n r not_found_expired, of id]
  show ?thesis
    by (simp add: veo_model veo_input)
qed

section \<open>Properties of the Generation Scheduler\<close>

lemma updateFirst_distinct:
  "distinct (map key xs) \<Longrightarrow> i < length xs \<Longrightarrow>
     updateFirst (\<lambda>x. key x = key (xs ! i)) f xs = xs[i := f (xs ! i)]"
proof (induction xs arbitrary: i)
  case Nil
  then show ?case by simp
next
  case (Cons x xs)
  show ?case
  proof (cases i)
    case 0
    then show ?thesis by simp
  next
    case (Suc k)
    with Cons.prems have k: "k < length xs" by simp
    then have "key (xs ! k) \<in> set (map key xs)" by simp
    with Cons.prems(1) have "key x \<noteq> key (xs ! k)" by auto
    with Suc Cons.IH [of k] Cons.prems(1) k show ?thesis by simp
  qed
qed

lemma updateShot_at:
  assumes "uniqueIds st" and "i < length (scenes st)" and "j < length (scene_shots (scenes st ! i))"
  shows "updateShot (scene_id (scenes st ! i)) (shot_id (scene_shots (scenes st ! i) ! j)) f st
           = mapShotAt i j f st"
proof -
  from assms(1) have d1: "distinct (map scene_id (scenes st))"
    by (simp add: uniqueIds_def)
  from assms(1,2) have d2: "distinct (map shot_id (scene_shots (scenes st ! i)))"
    by (simp add: uniqueIds_def list_all_length)
  show ?thesis
    unfolding updateShot_def mapShotAt_def
    by (simp add: updateFirst_distinct [OF d1 assms(2)] updateFirst_distinct [OF d2 assms(3)])
qed

lemma map_key_update:
  assumes "\<And>x. key (g x) = key x"
  shows "map key (xs[j := g (xs ! j)]) = map key xs"
proof (cases "j < length xs")
  case True
  have "map key (xs[j := g (xs ! j)]) = (map key xs)[j := key (xs ! j)]"
    by (simp add: map_update assms)
  also have "\<dots> = (map key xs)[j := map key xs ! j]"
    using True by simp
  also have "\<dots> = map key xs"
    by (rule list_update_id)
  finally show ?thesis .
next
  case False
  then have "length xs \<le> j" by simp
  then show ?thesis by (simp add: list_update_beyond)
qed

text \<open>The identities of a story: what \<open>uniqueIds\<close> depends on.\<close>

lemma uniqueIds_ids:
  "uniqueIds st =
     (distinct (map fst (map (\<lambda>s. (scene_id s, map shot_id (scene_shots s))) (scenes st)))
      \<and> list_all distinct (map snd (map (\<lambda>s. (scene_id s, map shot_id (scene_shots s))) (scenes st))))"
  by (simp add: uniqueIds_def list_all_iff comp_def)

lemma uniqueIds_cong:
  "map (\<lambda>s. (scene_id s, map shot_id (scene_shots s))) (scenes st')
     = map (\<lambda>s. (scene_id s, map shot_id (scene_shots s))) (scenes st)
   \<Longrightarrow> uniqueIds st' = uniqueIds st"
  by (simp only: uniqueIds_ids)

lemma mapShotAt_ids:
  assumes "\<And>h. shot_id (g h) = shot_id h"
  shows "map (\<lambda>s. (scene_id s, map shot_id (scene_shots s))) (scenes (mapShotAt i j g st))
           = map (\<lambda>s. (scene_id s, map shot_id (scene_shots s))) (scenes st)"
proof (rule nth_equalityI)
  show "length (map (\<lambda>s. (scene_id s, map shot_id (scene_shots s))) (scenes (mapShotAt i j g st)))
          = length (map (\<lambda>s. (scene_id s, map shot_id (scene_shots s))) (scenes st))"
    by (simp add: mapShotAt_def)
next
  fix k assume "k < length (map (\<lambda>s. (scene_id s, map shot_id (scene_shots s))) (scenes (mapShotAt i j g st)))"
  then have k: "k < length (scenes st)" by (simp add: mapShotAt_def)
  have "map shot_id ((scene_shots (scenes st ! i))[j := g (scene_shots (scenes st ! i) ! j)])
          = map shot_id (scene_shots (scenes st ! i))"
    by (rule map_key_update) (rule assms)
  with k show "map (\<lambda>s. (scene_id s, map shot_id (scene_shots s))) (scenes (mapShotAt i j g st)) ! k
          = map (\<lambda>s. (scene_id s, map shot_id (scene_shots s))) (scenes st) ! k"
    by (cases "k = i") (simp_all add: mapShotAt_def)
qed

lemma mapShotAt_uniqueIds:
  assumes "\<And>h. shot_id (g h) = shot_id h"
  shows "uniqueIds (mapShotAt i j g st) = uniqueIds st"
  by (rule uniqueIds_cong) (rule mapShotAt_ids [OF assms])


lemma mapShotAt_scenes_length [simp]: "length (scenes (mapShotAt i j g st)) = length (scenes st)"
  by (simp add: mapShotAt_def)

lemma mapShotAt_shots_length [simp]:
  "length (scene_shots (scenes (mapShotAt i j g st) ! k)) = length (scene_shots (scenes st ! k))"
proof (cases "i < length (scenes st)")
  case True
  then show ?thesis by (cases "k = i") (simp_all add: mapShotAt_def)
next
  case False
  then have "length (scenes st) \<le> i" by simp
  then show ?thesis by (simp add: mapShotAt_def list_update_beyond)
qed

lemma mapShotAt_nth:
  assumes "i < length (scenes st)" and "j < length (scene_shots (scenes st ! i))"
  shows "scene_shots (scenes (mapShotAt i j g st) ! i) ! j = g (scene_shots (scenes st ! i) ! j)"
    and "scene_id (scenes (mapShotAt i j g st) ! i) = scene_id (scenes st ! i)"
  using assms by (simp_all add: mapShotAt_def)

lemma mapShotAt_twice:
  assumes "i < length (scenes st)" and "j < length (scene_shots (scenes st ! i))"
  shows "mapShotAt i j g2 (mapShotAt i j g1 st) = mapShotAt i j (\<lambda>h. g2 (g1 h)) st"
  using assms by (simp add: mapShotAt_def)

lemma mapShotAt_same:
  assumes "g (scene_shots (scenes st ! i) ! j) = scene_shots (scenes st ! i) ! j"
  shows "mapShotAt i j g st = st"
  using assms by (simp add: mapShotAt_def)

lemma shotAt_nth:
  "i < length (scenes st) \<Longrightarrow> j < length (scene_shots (scenes st ! i)) \<Longrightarrow>
     shotAt st i j = Some (scene_shots (scenes st ! i) ! j)"
  by (simp add: shotAt_def nth_opt_eq)

lemma resetShotStoryboard_at:
  assumes u: "uniqueIds st" and i: "i < length (scenes st)"
    and j: "j < length (scene_shots (scenes st ! i))"
  shows "resetShotStoryboard i j st = mapShotAt i j clearStaleImage st"
proof -
  let ?h = "scene_shots (scenes st ! i) ! j"
  show ?thesis
  proof (cases "isSet (shot_isGenerating ?h) \<and> \<not> truthy (shot_imageUrl ?h)")
    case True
    then have "mapShotAt i j clearStaleImage st
                 = mapShotAt i j (\<lambda>h. h\<lparr>shot_isGenerating := Some False\<rparr>) st"
      by (simp add: mapShotAt_def clearStaleImage_def)
    with True i j updateShot_at [OF u i j] show ?thesis
      by (simp add: resetShotStoryboard_def nth_opt_eq setGeneratingShot_def)
  next
    case False
    then have "clearStaleImage ?h = ?h" by (auto simp add: clearStaleImage_def)
    then have "mapShotAt i j clearStaleImage st = st" by (rule mapShotAt_same)
    with False i j show ?thesis
      by (auto simp add: resetShotStoryboard_def nth_opt_eq)
  qed
qed

lemma resetShotEdit_at:
  assumes u: "uniqueIds st" and i: "i < length (scenes st)"
    and j: "j < length (scene_shots (scenes st ! i))"
  shows "resetShotEdit i j st = mapShotAt i j clearStaleEdit st"
proof -
  let ?h = "scene_shots (scenes st ! i) ! j"
  let ?g1 = "\<lambda>h. if isSet (shot_isAnimating h) \<and> \<not> truthy (shot_animationUrl h)
                then h\<lparr>shot_isAnimating := Some False\<rparr> else h"
  let ?g2 = "\<lambda>h. if isSet (shot_isGeneratingAudio h) \<and> \<not> truthy (shot_audioUrl h)
                then h\<lparr>shot_isGeneratingAudio := Some False\<rparr> else h"
  let ?st1 = "mapShotAt i j ?g1 st"
  have id1: "\<And>h. shot_id (?g1 h) = shot_id h" by simp
  have first: "(if isSet (shot_isAnimating ?h) \<and> \<not> truthy (shot_animationUrl ?h)
                then setAnimatingShot (scene_id (scenes st ! i)) (shot_id ?h) False st else st) = ?st1"
  proof (cases "isSet (shot_isAnimating ?h) \<and> \<not> truthy (shot_animationUrl ?h)")
    case True
    then have "?st1 = mapShotAt i j (\<lambda>h. h\<lparr>shot_isAnimating := Some False\<rparr>) st"
      by (simp add: mapShotAt_def)
    with True updateShot_at [OF u i j] show ?thesis
      by (simp add: setAnimatingShot_def)
  next
    case False
    then have "?g1 ?h = ?h" by auto
    then have "?st1 = st" by (rule mapShotAt_same)
    with False show ?thesis by auto
  qed
  have u1: "uniqueIds ?st1" using u mapShotAt_uniqueIds [of ?g1 i j st] by simp
  have i1: "i < length (scenes ?st1)" using i by simp
  have j1: "j < length (scene_shots (scenes ?st1 ! i))" using j by simp
  have h1: "scene_shots (scenes ?st1 ! i) ! j = ?g1 ?h" "scene_id (scenes ?st1 ! i) = scene_id (scenes st ! i)"
    using mapShotAt_nth [OF i j, of ?g1] by simp_all
  have sid: "shot_id (?g1 ?h) = shot_id ?h" by simp
  have second: "(if isSet (shot_isGeneratingAudio (?g1 ?h)) \<and> \<not> truthy (shot_audioUrl (?g1 ?h))
                 then setGeneratingAudioShot (scene_id (scenes st ! i)) (shot_id (?g1 ?h)) False ?st1 else ?st1)
                = mapShotAt i j ?g2 ?st1"
  proof (cases "isSet (shot_isGeneratingAudio (?g1 ?h)) \<and> \<not> truthy (shot_audioUrl (?g1 ?h))")
    case True
    then have "mapShotAt i j ?g2 ?st1 = mapShotAt i j (\<lambda>h. h\<lparr>shot_isGeneratingAudio := Some False\<rparr>) ?st1"
      unfolding mapShotAt_def [of i j _ ?st1] h1 by simp
    with True updateShot_at [OF u1 i1 j1, of "\<lambda>h. h\<lparr>shot_isGeneratingAudio := Some False\<rparr>"]
    show ?thesis
      unfolding h1 by (simp add: setGeneratingAudioShot_def)
  next
    case False
    then have "?g2 (scene_shots (scenes ?st1 ! i) ! j) = scene_shots (scenes ?st1 ! i) ! j"
      unfolding h1 by auto
    then have "mapShotAt i j ?g2 ?st1 = ?st1" by (rule mapShotAt_same)
    with False show ?thesis by auto
  qed
  have comp: "mapShotAt i j ?g2 ?st1 = mapShotAt i j clearStaleEdit st"
    unfolding mapShotAt_twice [OF i j] clearStaleEdit_def Let_def ..
  have "resetShotEdit i j st =
          (if isSet (shot_isGeneratingAudio (?g1 ?h)) \<and> \<not> truthy (shot_audioUrl (?g1 ?h))
           then setGeneratingAudioShot (scene_id (scenes st ! i)) (shot_id (?g1 ?h)) False ?st1 else ?st1)"
    unfolding resetShotEdit_def using i j
    by (simp only: nth_opt_eq if_True option.case Let_def first shotAt_nth [OF i1 j1] h1)
  with second comp show ?thesis by simp
qed

lemma pad_step:
  assumes "n < length S"
  shows "(map g (take n S) @ drop n S) ! n = S ! n"
    and "(map g (take n S) @ drop n S)[n := g (S ! n)] = map g (take (Suc n) S) @ drop (Suc n) S"
proof -
  have len: "length (map g (take n S)) = n" using assms by simp
  have d: "drop n S = S ! n # drop (Suc n) S"
    using assms by (simp add: Cons_nth_drop_Suc)
  have t: "take (Suc n) S = take n S @ [S ! n]"
    using assms by (simp add: take_Suc_conv_app_nth)
  show "(map g (take n S) @ drop n S) ! n = S ! n"
    using assms by (simp add: nth_append)
  show "(map g (take n S) @ drop n S)[n := g (S ! n)] = map g (take (Suc n) S) @ drop (Suc n) S"
    unfolding d t using len by (simp add: list_update_append)
qed

lemma inner_fold:
  assumes step_at: "\<And>st i j. uniqueIds st \<Longrightarrow> i < length (scenes st) \<Longrightarrow>
                       j < length (scene_shots (scenes st ! i)) \<Longrightarrow> step i j st = mapShotAt i j g st"
    and g_id: "\<And>h. shot_id (g h) = shot_id h"
    and u: "uniqueIds st" and i: "i < length (scenes st)"
  shows "n \<le> length (scene_shots (scenes st ! i)) \<Longrightarrow>
         fold (step i) [0..<n] st =
           st\<lparr>scenes := (scenes st)[i := (scenes st ! i)
                 \<lparr>scene_shots := map g (take n (scene_shots (scenes st ! i)))
                                 @ drop n (scene_shots (scenes st ! i))\<rparr>]\<rparr>"
proof (induction n)
  case 0
  then show ?case by simp
next
  case (Suc n)
  let ?S = "scene_shots (scenes st ! i)"
  let ?X = "map g (take n ?S) @ drop n ?S"
  let ?stn = "st\<lparr>scenes := (scenes st)[i := (scenes st ! i)\<lparr>scene_shots := ?X\<rparr>]\<rparr>"
  from Suc.prems have n: "n < length ?S" by simp
  with Suc.IH have IH: "fold (step i) [0..<n] st = ?stn" by simp
  have ids: "map (\<lambda>s. (scene_id s, map shot_id (scene_shots s))) (scenes ?stn)
               = map (\<lambda>s. (scene_id s, map shot_id (scene_shots s))) (scenes st)"
  proof (rule nth_equalityI)
    show "length (map (\<lambda>s. (scene_id s, map shot_id (scene_shots s))) (scenes ?stn))
            = length (map (\<lambda>s. (scene_id s, map shot_id (scene_shots s))) (scenes st))" by simp
  next
    fix k assume "k < length (map (\<lambda>s. (scene_id s, map shot_id (scene_shots s))) (scenes ?stn))"
    then have k: "k < length (scenes st)" by simp
    have "map shot_id ?X = map shot_id (take n ?S) @ map shot_id (drop n ?S)"
      by (simp add: g_id comp_def)
    also have "\<dots> = map shot_id ?S"
      by (simp only: map_append [symmetric] append_take_drop_id)
    finally have "map shot_id ?X = map shot_id ?S" .
    with k show "map (\<lambda>s. (scene_id s, map shot_id (scene_shots s))) (scenes ?stn) ! k
                   = map (\<lambda>s. (scene_id s, map shot_id (scene_shots s))) (scenes st) ! k"
      by (cases "k = i") simp_all
  qed
  have un: "uniqueIds ?stn" using u uniqueIds_cong [OF ids] by simp
  have il: "i < length (scenes ?stn)" using i by simp
  have sn: "scenes ?stn ! i = (scenes st ! i)\<lparr>scene_shots := ?X\<rparr>" using i by simp
  have jl: "n < length (scene_shots (scenes ?stn ! i))" using n unfolding sn by simp
  have "fold (step i) [0..<Suc n] st = step i n ?stn"
    using IH by simp
  also have "\<dots> = mapShotAt i n g ?stn"
    by (rule step_at [OF un il jl])
  also have "\<dots> = st\<lparr>scenes := (scenes st)[i := (scenes st ! i)
                 \<lparr>scene_shots := ?X[n := g (?X ! n)]\<rparr>]\<rparr>"
    unfolding mapShotAt_def sn by simp
  also have "?X[n := g (?X ! n)] = map g (take (Suc n) ?S) @ drop (Suc n) ?S"
    using pad_step [OF n, of g] by simp
  finally show ?case .
qed

lemma forEachShot_map:
  assumes step_at: "\<And>st i j. uniqueIds st \<Longrightarrow> i < length (scenes st) \<Longrightarrow>
                       j < length (scene_shots (scenes st ! i)) \<Longrightarrow> step i j st = mapShotAt i j g st"
    and g_id: "\<And>h. shot_id (g h) = shot_id h"
    and u: "uniqueIds st"
  shows "forEachShot step st = mapShots g st"
proof -
  let ?G = "\<lambda>s. s\<lparr>scene_shots := map g (scene_shots s)\<rparr>"
  let ?F = "\<lambda>i st. case nth_opt (scenes st) i of
                     None \<Rightarrow> st
                   | Some s \<Rightarrow> fold (step i) [0..<length (scene_shots s)] st"
  let ?ids = "\<lambda>s. (scene_id s, map shot_id (scene_shots s))"
  have outer: "m \<le> length (scenes st) \<Longrightarrow>
         fold ?F [0..<m] st = st\<lparr>scenes := map ?G (take m (scenes st)) @ drop m (scenes st)\<rparr>" for m
  proof (induction m)
    case 0
    then show ?case by simp
  next
    case (Suc m)
    let ?S = "scenes st"
    let ?X = "map ?G (take m ?S) @ drop m ?S"
    let ?stm = "st\<lparr>scenes := ?X\<rparr>"
    from Suc.prems have m: "m < length ?S" by simp
    with Suc.IH have IH: "fold ?F [0..<m] st = ?stm" by simp
    have "map ?ids ?X = map ?ids (take m ?S) @ map ?ids (drop m ?S)"
      by (simp add: g_id comp_def)
    also have "\<dots> = map ?ids ?S"
      by (simp only: map_append [symmetric] append_take_drop_id)
    finally have ids: "map ?ids (scenes ?stm) = map ?ids (scenes st)" by simp
    have un: "uniqueIds ?stm" using u uniqueIds_cong [OF ids] by simp
    have xm: "?X ! m = ?S ! m" by (rule pad_step(1) [OF m])
    have ml: "m < length (scenes ?stm)" using m by simp
    have sm: "scenes ?stm ! m = ?S ! m" using xm by simp
    have "fold ?F [0..<Suc m] st = ?F m (fold ?F [0..<m] st)"
      by simp
    also have "\<dots> = ?F m ?stm"
      by (simp only: IH)
    also have "\<dots> = fold (step m) [0..<length (scene_shots (?S ! m))] ?stm"
      using ml sm by (simp add: nth_opt_eq)
    also have "\<dots> = ?stm\<lparr>scenes := (scenes ?stm)[m := (scenes ?stm ! m)
                 \<lparr>scene_shots := map g (take (length (scene_shots (?S ! m))) (scene_shots (scenes ?stm ! m)))
                                 @ drop (length (scene_shots (?S ! m))) (scene_shots (scenes ?stm ! m))\<rparr>]\<rparr>"
      by (rule inner_fold [OF step_at g_id un ml]) (simp_all add: xm)
    also have "\<dots> = st\<lparr>scenes := ?X[m := ?G (?S ! m)]\<rparr>"
      by (simp add: xm)
    also have "?X[m := ?G (?S ! m)] = map ?G (take (Suc m) ?S) @ drop (Suc m) ?S"
      by (rule pad_step(2) [OF m])
    finally show ?case .
  qed
  have "forEachShot step st = fold ?F [0..<length (scenes st)] st"
    by (simp add: forEachShot_def)
  also have "\<dots> = st\<lparr>scenes := map ?G (scenes st)\<rparr>"
    using outer [of "length (scenes st)"] by simp
  finally show ?thesis by (simp add: mapShots_def)
qed

lemma mountEditView_eq:
  assumes "uniqueIds st"
  shows "mountEditView st = mapShots clearStaleEdit st"
  unfolding mountEditView_def
proof (rule forEachShot_map [OF _ _ assms])
  show "\<And>st i j. uniqueIds st \<Longrightarrow> i < length (scenes st) \<Longrightarrow>
          j < length (scene_shots (scenes st ! i)) \<Longrightarrow> resetShotEdit i j st = mapShotAt i j clearStaleEdit st"
    by (rule resetShotEdit_at)
  show "\<And>h. shot_id (clearStaleEdit h) = shot_id h"
    by (simp add: clearStaleEdit_def Let_def)
qed

lemma resetCharacters_fold:
  "n \<le> length (characters st) \<Longrightarrow>
     fold resetCharacter [0..<n] st
       = st\<lparr>characters := map clearStaleCharacter (take n (characters st)) @ drop n (characters st)\<rparr>"
proof (induction n)
  case 0
  then show ?case by simp
next
  case (Suc n)
  let ?C = "characters st"
  let ?X = "map clearStaleCharacter (take n ?C) @ drop n ?C"
  let ?stn = "st\<lparr>characters := ?X\<rparr>"
  from Suc.prems have n: "n < length ?C" by simp
  with Suc.IH have IH: "fold resetCharacter [0..<n] st = ?stn" by simp
  have xn: "?X ! n = ?C ! n" by (rule pad_step(1) [OF n])
  have nl: "n < length (characters ?stn)" using n by simp
  have one: "resetCharacter n ?stn = ?stn\<lparr>characters := ?X[n := clearStaleCharacter (?C ! n)]\<rparr>"
  proof (cases "isSet (char_isGenerating (?C ! n)) \<and> \<not> truthy (char_referenceImageUrl (?C ! n))")
    case True
    with nl xn show ?thesis
      by (simp add: resetCharacter_def nth_opt_eq setGeneratingCharacter_def updateCharacter_def
            clearStaleCharacter_def)
  next
    case False
    then have "clearStaleCharacter (?C ! n) = ?X ! n"
      unfolding xn by (auto simp add: clearStaleCharacter_def)
    then have "?X[n := clearStaleCharacter (?C ! n)] = ?X" by simp
    with False nl xn show ?thesis
      by (auto simp add: resetCharacter_def nth_opt_eq)
  qed
  have "fold resetCharacter [0..<Suc n] st = resetCharacter n (fold resetCharacter [0..<n] st)"
    by simp
  also have "\<dots> = resetCharacter n ?stn"
    by (simp only: IH)
  also have "\<dots> = st\<lparr>characters := ?X[n := clearStaleCharacter (?C ! n)]\<rparr>"
    using one by simp
  also have "?X[n := clearStaleCharacter (?C ! n)]
               = map clearStaleCharacter (take (Suc n) ?C) @ drop (Suc n) ?C"
    by (rule pad_step(2) [OF n])
  finally show ?case .
qed

lemma mountStoryboard_eq:
  assumes "uniqueIds st"
  shows "mountStoryboard st
           = (mapShots clearStaleImage st)\<lparr>characters := map clearStaleCharacter (characters st)\<rparr>"
proof -
  have "forEachShot resetShotStoryboard st = mapShots clearStaleImage st"
  proof (rule forEachShot_map [OF _ _ assms])
    show "\<And>st i j. uniqueIds st \<Longrightarrow> i < length (scenes st) \<Longrightarrow>
            j < length (scene_shots (scenes st ! i)) \<Longrightarrow>
            resetShotStoryboard i j st = mapShotAt i j clearStaleImage st"
      by (rule resetShotStoryboard_at)
    show "\<And>h. shot_id (clearStaleImage h) = shot_id h"
      by (simp add: clearStaleImage_def)
  qed
  moreover have "characters (mapShots clearStaleImage st) = characters st"
    by (simp add: mapShots_def)
  ultimately show ?thesis
    using resetCharacters_fold [of "length (characters st)" "mapShots clearStaleImage st"]
    by (simp add: mountStoryboard_def Let_def)
qed

lemma map_snd_shotJobs: "map snd (shotJobs st) = getAllShots st"
proof -
  have inner: "map snd (map (\<lambda>(j, h). (Job sid i j, h)) (enumerate 0 hs)) = hs" for sid i and hs :: "shot list"
  proof -
    have "map snd (map (\<lambda>(j, h). (Job sid i j, h)) (enumerate 0 hs)) = map snd (enumerate 0 hs)"
      by (simp add: comp_def case_prod_beta)
    then show ?thesis by (simp add: map_snd_enumerate)
  qed
  have "map snd (shotJobs st)
          = concat (map (\<lambda>p. scene_shots (snd p)) (enumerate 0 (scenes st)))"
    unfolding shotJobs_def map_concat
    by (simp add: comp_def case_prod_beta inner)
  also have "map (\<lambda>p. scene_shots (snd p)) (enumerate 0 (scenes st))
               = map scene_shots (map snd (enumerate 0 (scenes st)))"
    by (simp only: map_map comp_def)
  also have "concat (map scene_shots (map snd (enumerate 0 (scenes st)))) = getAllShots st"
    by (simp only: map_snd_enumerate getAllShots_def)
  finally show ?thesis .
qed

lemma worklist_cong:
  assumes "list_all Q (getAllShots st)"
    and "\<And>job h. Q h \<Longrightarrow> P (job, h) = P' (job, h)"
  shows "map fst (filter P (shotJobs st)) = map fst (filter P' (shotJobs st))"
proof -
  have "filter P (shotJobs st) = filter P' (shotJobs st)"
  proof (rule filter_cong [OF refl])
    fix x assume x: "x \<in> set (shotJobs st)"
    then have "snd x \<in> set (map snd (shotJobs st))" by simp
    then have "snd x \<in> set (getAllShots st)" by (simp only: map_snd_shotJobs)
    with assms(1) have "Q (snd x)" by (simp add: list_all_iff)
    from assms(2) [OF this, of "fst x"] show "P x = P' x" by simp
  qed
  then show ?thesis by simp
qed

lemma getAllShots_mapShots: "getAllShots (mapShots g st) = map g (getAllShots st)"
  by (simp add: getAllShots_def mapShots_def map_concat comp_def)

lemma clearStaleImage_ok:
  "\<not> (isSet (shot_isGenerating (clearStaleImage h)) \<and> \<not> truthy (shot_imageUrl (clearStaleImage h)))"
  by (simp add: clearStaleImage_def isSet_def)

lemma clearStaleEdit_ok:
  "\<not> (isSet (shot_isAnimating (clearStaleEdit h)) \<and> \<not> truthy (shot_animationUrl (clearStaleEdit h)))
   \<and> \<not> (isSet (shot_isGeneratingAudio (clearStaleEdit h)) \<and> \<not> truthy (shot_audioUrl (clearStaleEdit h)))"
  by (simp add: clearStaleEdit_def isSet_def Let_def)

lemma clearStaleCharacter_ok:
  "\<not> (isSet (char_isGenerating (clearStaleCharacter c))
      \<and> \<not> truthy (char_referenceImageUrl (clearStaleCharacter c)))"
  by (simp add: clearStaleCharacter_def isSet_def)

text \<open>
  Claim C8. In a story whose ids are unique (scene ids, and shot ids within a scene), the
  mount effect of \<open>Storyboard\<close> clears \<open>isGenerating\<close> of every shot that has the flag
  set and no image, and of every character that has it set and no reference image; the mount
  effect of \<open>EditView\<close> clears \<open>isAnimating\<close> of every shot that has it set and no video
  clip, and \<open>isGeneratingAudio\<close> of every shot that has it set and no audio. Nothing else
  of the story changes. Afterwards no shot or character is in progress without an asset, so
  the work list of \<open>generateAllImages\<close> holds every shot without an image, and that of
  \<open>animateSelected\<close> every selected shot without a video clip.
\<close>

theorem C8_stale_flags_cleared:
  assumes "uniqueIds st"
  shows "mountStoryboard st
           = (mapShots clearStaleImage st)\<lparr>characters := map clearStaleCharacter (characters st)\<rparr>
       \<and> mountEditView st = mapShots clearStaleEdit st
       \<and> list_all (\<lambda>h. \<not> (isSet (shot_isGenerating h) \<and> \<not> truthy (shot_imageUrl h)))
            (getAllShots (mountStoryboard st))
       \<and> list_all (\<lambda>c. \<not> (isSet (char_isGenerating c) \<and> \<not> truthy (char_referenceImageUrl c)))
            (characters (mountStoryboard st))
       \<and> list_all (\<lambda>h. \<not> (isSet (shot_isAnimating h) \<and> \<not> truthy (shot_animationUrl h))
                      \<and> \<not> (isSet (shot_isGeneratingAudio h) \<and> \<not> truthy (shot_audioUrl h)))
            (getAllShots (mountEditView st))
       \<and> shotsToGenerate (mountStoryboard st)
           = map fst (filter (\<lambda>(job, h). \<not> truthy (shot_imageUrl h)) (shotJobs (mountStoryboard st)))
       \<and> shotsToAnimate selected (mountEditView st)
           = map fst (filter (\<lambda>(job, h). shot_id h \<in> set selected \<and> \<not> truthy (shot_animationUrl h))
                             (shotJobs (mountEditView st)))"
proof -
  note sb = mountStoryboard_eq [OF assms]
  note ev = mountEditView_eq [OF assms]
  have shots_sb: "getAllShots (mountStoryboard st) = map clearStaleImage (getAllShots st)"
    unfolding sb by (simp add: getAllShots_def mapShots_def map_concat comp_def)
  have a: "list_all (\<lambda>h. \<not> (isSet (shot_isGenerating h) \<and> \<not> truthy (shot_imageUrl h)))
            (getAllShots (mountStoryboard st))"
    unfolding shots_sb using clearStaleImage_ok by (simp add: list_all_iff)
  have b: "list_all (\<lambda>c. \<not> (isSet (char_isGenerating c) \<and> \<not> truthy (char_referenceImageUrl c)))
            (characters (mountStoryboard st))"
    unfolding sb using clearStaleCharacter_ok by (simp add: list_all_iff)
  have c: "list_all (\<lambda>h. \<not> (isSet (shot_isAnimating h) \<and> \<not> truthy (shot_animationUrl h))
                      \<and> \<not> (isSet (shot_isGeneratingAudio h) \<and> \<not> truthy (shot_audioUrl h)))
            (getAllShots (mountEditView st))"
    unfolding ev getAllShots_mapShots using clearStaleEdit_ok by (simp add: list_all_iff)
  have d: "shotsToGenerate (mountStoryboard st)
           = map fst (filter (\<lambda>(job, h). \<not> truthy (shot_imageUrl h)) (shotJobs (mountStoryboard st)))"
    unfolding shotsToGenerate_def
    by (rule worklist_cong [OF a]) auto
  have e: "shotsToAnimate selected (mountEditView st)
           = map fst (filter (\<lambda>(job, h). shot_id h \<in> set selected \<and> \<not> truthy (shot_animationUrl h))
                             (shotJobs (mountEditView st)))"
    unfolding shotsToAnimate_def
    by (rule worklist_cong [OF c]) auto
  from sb ev a b c d e show ?thesis by blast
qed

lemma demoStory_uniqueIds: "uniqueIds demoStory"
  by (simp add: uniqueIds_def demoStory_def demoShot_def)

theorem C8_stale_flags_cleared_witness:
  "map shot_isGenerating (getAllShots (mountStoryboard demoStory)) = [Some False, None, None]
   \<and> map char_isGenerating (characters (mountStoryboard demoStory)) = [Some False]
   \<and> map shot_isAnimating (getAllShots (mountEditView demoStory)) = [None, None, Some False]
   \<and> map shot_isGeneratingAudio (getAllShots (mountEditView demoStory)) = [None, None, Some False]
   \<and> shotsToGenerate (mountStoryboard demoStory) = [Job ''scene-0'' 0 0]"
proof -
  note inst = C8_stale_flags_cleared [OF demoStory_uniqueIds, of "[]"]
  from inst have sb: "mountStoryboard demoStory
           = (mapShots clearStaleImage demoStory)\<lparr>characters := map clearStaleCharacter (characters demoStory)\<rparr>"
    by blast
  from inst have ev: "mountEditView demoStory = mapShots clearStaleEdit demoStory"
    by blast
  from inst have wl: "shotsToGenerate (mountStoryboard demoStory)
           = map fst (filter (\<lambda>(job, h). \<not> truthy (shot_imageUrl h)) (shotJobs (mountStoryboard demoStory)))"
    by blast
  have a: "map shot_isGenerating (getAllShots (mountStoryboard demoStory)) = [Some False, None, None]"
    unfolding sb
    by (simp add: getAllShots_def mapShots_def demoStory_def demoShot_def clearStaleImage_def isSet_def)
  have b: "map char_isGenerating (characters (mountStoryboard demoStory)) = [Some False]"
    unfolding sb
    by (simp add: mapShots_def demoStory_def clearStaleCharacter_def isSet_def)
  have c: "map shot_isAnimating (getAllShots (mountEditView demoStory)) = [None, None, Some False]"
    unfolding ev
    by (simp add: getAllShots_def mapShots_def demoStory_def demoShot_def clearStaleEdit_def isSet_def Let_def)
  have d: "map shot_isGeneratingAudio (getAllShots (mountEditView demoStory)) = [None, None, Some False]"
    unfolding ev
    by (simp add: getAllShots_def mapShots_def demoStory_def demoShot_def clearStaleEdit_def isSet_def Let_def)
  have "map fst (filter (\<lambda>(job, h). \<not> truthy (shot_imageUrl h)) (shotJobs (mountStoryboard demoStory)))
          = [Job ''scene-0'' 0 0]"
    unfolding sb
    by (simp add: shotJobs_def mapShots_def demoStory_def demoShot_def clearStaleImage_def isSet_def
          enumerate_eq_zip upt_rec)
  with wl have e: "shotsToGenerate (mountStoryboard demoStory) = [Job ''scene-0'' 0 0]"
    by simp
  from a b c d e show ?thesis by blast
qed

lemma settleJob_frame:
  "events (settleJob kind enableAudio result job r) = events r
   \<and> completed (settleJob kind enableAudio result job r) = completed r"
  by (simp add: settleJob_def Let_def split: option.splits job_kind.splits outcome.splits)

lemma finishJob_frame:
  "events (finishJob kind enableAudio respond launched job r) = events r @ [Finished job]
   \<and> completed (finishJob kind enableAudio respond launched job r) = Suc (completed r)"
  by (simp add: finishJob_def Let_def settleJob_frame)

lemma finish_fold:
  "events (fold (\<lambda>job. finishJob kind enableAudio respond (launched job) job) js r)
     = events r @ map Finished js
   \<and> completed (fold (\<lambda>job. finishJob kind enableAudio respond (launched job) job) js r)
     = completed r + length js"
proof (induction js arbitrary: r)
  case Nil
  show ?case by simp
next
  case (Cons j js)
  show ?case
    by (simp add: Cons.IH finishJob_frame)
qed

lemma runWave_frame:
  "events (runWave kind enableAudio respond order batch r)
     = events r @ map Started batch @ map Finished (order batch)
   \<and> completed (runWave kind enableAudio respond order batch r) = completed r + length (order batch)"
proof -
  obtain flags st1 where l: "launchAll kind batch (run_story r) = (flags, st1)"
    by (cases "launchAll kind batch (run_story r)")
  show ?thesis
    unfolding runWave_def l
    by (simp add: finish_fold [where launched = "\<lambda>job. map_of flags job = Some True"])
qed

lemma specWaves_step:
  assumes "0 < c" and "i < length xs"
  shows "specWaves c (drop i xs) = take c (drop i xs) # specWaves c (drop (i + c) xs)"
proof -
  from assms have "specWaves c (drop i xs) = take c (drop i xs) # specWaves c (drop c (drop i xs))"
    by (subst specWaves.simps) simp
  then show ?thesis by (simp add: add.commute)
qed

lemma specWaves_empty: "specWaves c xs = [] \<longleftrightarrow> c = 0 \<or> xs = []"
  by (subst specWaves.simps) simp

lemma runWaves_frame:
  "events (runWaves kind enableAudio respond order jobs i r)
     = events r @ specSchedule kind order (specWaves (concurrency kind) (drop i jobs))
   \<and> completed (runWaves kind enableAudio respond order jobs i r)
     = completed r + length (concat (map order (specWaves (concurrency kind) (drop i jobs))))"
proof (induction kind enableAudio respond order jobs i r rule: runWaves.induct)
  case (1 kind enableAudio respond order jobs i r)
  let ?c = "concurrency kind"
  show ?case
  proof (cases "i < length jobs")
    case False
    then have "specWaves ?c (drop i jobs) = []" by (simp add: specWaves_empty)
    with False show ?thesis
      by (subst (1 2) runWaves.simps) simp
  next
    case True
    let ?batch = "take ?c (drop i jobs)"
    let ?r1 = "runWave kind enableAudio respond order ?batch r"
    let ?r2 = "if i + ?c < length jobs then ?r1\<lparr>events := events ?r1 @ [Slept (waveDelay kind)]\<rparr> else ?r1"
    have unfold: "runWaves kind enableAudio respond order jobs i r
                    = runWaves kind enableAudio respond order jobs (i + ?c) ?r2"
      using True by (subst runWaves.simps) (simp add: Let_def)
    note IH = "1.IH" [OF True refl refl refl]
    have ws: "specWaves ?c (drop i jobs) = ?batch # specWaves ?c (drop (i + ?c) jobs)"
      by (rule specWaves_step [OF concurrency_pos True])
    have rest: "specWaves ?c (drop (i + ?c) jobs) = [] \<longleftrightarrow> \<not> i + ?c < length jobs"
      using concurrency_pos [of kind] by (simp add: specWaves_empty not_less)
    show ?thesis
      unfolding unfold ws
      using IH rest runWave_frame [of kind enableAudio respond order ?batch r]
      by (cases "i + ?c < length jobs") simp_all
  qed
qed

lemma specWaves_concat: "0 < c \<Longrightarrow> concat (specWaves c xs) = xs"
proof (induction c xs rule: specWaves.induct)
  case (1 c xs)
  show ?case
  proof (cases "xs = []")
    case True
    then show ?thesis by (subst specWaves.simps) simp
  next
    case False
    with "1.prems" have "concat (specWaves c (drop c xs)) = drop c xs"
      by (intro "1.IH") simp_all
    with False "1.prems" show ?thesis
      by (subst specWaves.simps) simp
  qed
qed

lemma specWaves_sizes: "list_all (\<lambda>w. 0 < length w \<and> length w \<le> c) (specWaves c xs)"
proof (induction c xs rule: specWaves.induct)
  case (1 c xs)
  show ?case
  proof (cases "c = 0 \<or> xs = []")
    case True
    then show ?thesis by (subst specWaves.simps) simp
  next
    case False
    with "1.IH" have "list_all (\<lambda>w. 0 < length w \<and> length w \<le> c) (specWaves c (drop c xs))"
      by simp
    with False show ?thesis
      by (subst specWaves.simps) simp
  qed
qed

lemma specWaves_full: "list_all (\<lambda>w. length w = c) (butlast (specWaves c xs))"
proof (induction c xs rule: specWaves.induct)
  case (1 c xs)
  show ?case
  proof (cases "c = 0 \<or> xs = []")
    case True
    then show ?thesis by (subst specWaves.simps) simp
  next
    case False
    with "1.IH" have IH: "list_all (\<lambda>w. length w = c) (butlast (specWaves c (drop c xs)))"
      by simp
    have "specWaves c (drop c xs) \<noteq> [] \<Longrightarrow> length (take c xs) = c"
      by (simp add: specWaves_empty)
    with False IH show ?thesis
      by (subst specWaves.simps) simp
  qed
qed





lemma peak_ge: "n \<le> peak n es"
  by (induction n es rule: peak.induct) simp_all

lemma peak_starts: "peak n (map Started w @ es) = peak (n + length w) es"
proof (induction w arbitrary: n)
  case Nil
  show ?case by simp
next
  case (Cons j w)
  have "Suc n \<le> peak (Suc n + length w) es"
    using peak_ge [of "Suc n + length w" es] by simp
  then show ?case by (simp add: Cons.IH max_def)
qed

lemma peak_finishes: "peak n (map Finished f @ es) = max n (peak (n - length f) es)"
proof (induction f arbitrary: n)
  case Nil
  show ?case using peak_ge [of n es] by (simp add: max_def)
next
  case (Cons j f)
  have "peak n (map Finished (j # f) @ es) = max n (max (n - 1) (peak (n - 1 - length f) es))"
    by (simp add: Cons.IH)
  also have "\<dots> = max n (peak (n - 1 - length f) es)"
    by arith
  also have "n - 1 - length f = n - length (j # f)"
    by simp
  finally show ?case .
qed

lemma peak_specSchedule:
  assumes "\<forall>w. length (order w) = length w"
  shows "list_all (\<lambda>w. length w \<le> c) ws \<Longrightarrow> peak 0 (specSchedule kind order ws) \<le> c"
proof (induction ws)
  case Nil
  show ?case by simp
next
  case (Cons w ws)
  then have w: "length w \<le> c" and IH: "peak 0 (specSchedule kind order ws) \<le> c" by simp_all
  have "peak 0 (specSchedule kind order (w # ws))
          = max (length w) (peak 0 (if ws = [] then [] else Slept (waveDelay kind) # specSchedule kind order ws))"
    using assms by (simp add: peak_starts peak_finishes)
  also have "\<dots> \<le> c"
    using w IH by simp
  finally show ?case .
qed


lemma perm_waves:
  assumes "\<forall>w. mset (order w) = mset w"
  shows "mset (concat (map order ws)) = mset (concat ws)"
    and "length (concat (map order ws)) = length (concat ws)"
    and "\<forall>w. length (order w) = length w"
proof -
  show "mset (concat (map order ws)) = mset (concat ws)"
    using assms by (induction ws) simp_all
  then show "length (concat (map order ws)) = length (concat ws)"
    by (rule mset_eq_length)
  show "\<forall>w. length (order w) = length w"
    using assms by (auto intro: mset_eq_length)
qed

lemma startRun_fields: "events (startRun st) = []" "completed (startRun st) = 0" "run_story (startRun st) = st"
  by (simp_all add: startRun_def)

lemma batch_trace:
  "events (runWaves kind enableAudio respond order jobs 0 (startRun st))
     = specSchedule kind order (specWaves (concurrency kind) jobs)"
  using runWaves_frame [of kind enableAudio respond order jobs 0 "startRun st"]
  by (simp add: startRun_fields)


text \<open>
  Claim C3. Whatever order the environment completes the jobs of a wave in (a permutation
  of the wave), the trace of a batch is the schedule of the specification: the jobs cut
  into consecutive waves of \<open>concurrency\<close> jobs, the last wave with what remains; in each
  wave all its jobs start and then all of them finish; one delay of \<open>waveDelay\<close>
  milliseconds stands between two waves and none after the last. At no point of the trace
  are more than \<open>concurrency\<close> jobs in flight. The constants are 5, 3 and 10 jobs and 500,
  1000 and 200 ms for \<open>generateAllImages\<close>, \<open>animateSelected\<close> and \<open>generateAllAudio\<close>.
  The audio generations that \<open>animateShot\<close> fires without awaiting are not jobs of the
  batch and are not counted.
\<close>

theorem C3_waves_bounded:
  assumes "\<forall>w. mset (order w) = mset w"
  shows "events (runWaves kind enableAudio respond order jobs 0 (startRun st))
           = specSchedule kind order (specWaves (concurrency kind) jobs)
       \<and> concat (specWaves (concurrency kind) jobs) = jobs
       \<and> list_all (\<lambda>w. 0 < length w \<and> length w \<le> concurrency kind) (specWaves (concurrency kind) jobs)
       \<and> list_all (\<lambda>w. length w = concurrency kind) (butlast (specWaves (concurrency kind) jobs))
       \<and> peak 0 (events (runWaves kind enableAudio respond order jobs 0 (startRun st))) \<le> concurrency kind
       \<and> events (generateAllImages respond order st)
           = specSchedule Image_job order (specWaves 5 (shotsToGenerate st))
       \<and> events (animateSelected enableAudio respond order selected st)
           = specSchedule Video_job order (specWaves 3 (shotsToAnimate selected st))
       \<and> map_option events (generateAllAudio True respond order st)
           = Some (specSchedule Audio_job order (specWaves 10 (shotsNeedingAudio st)))
       \<and> waveDelay Image_job = 500 \<and> waveDelay Video_job = 1000 \<and> waveDelay Audio_job = 200"
proof -
  let ?ws = "specWaves (concurrency kind) jobs"
  have sizes: "list_all (\<lambda>w. 0 < length w \<and> length w \<le> concurrency kind) ?ws"
    by (rule specWaves_sizes)
  then have le: "list_all (\<lambda>w. length w \<le> concurrency kind) ?ws"
    by (simp add: list_all_iff)
  have pk: "peak 0 (events (runWaves kind enableAudio respond order jobs 0 (startRun st))) \<le> concurrency kind"
    unfolding batch_trace
    by (rule peak_specSchedule [OF perm_waves(3) [OF assms] le])
  have img: "events (generateAllImages respond order st)
           = specSchedule Image_job order (specWaves 5 (shotsToGenerate st))"
    using batch_trace [of Image_job] by (simp add: generateAllImages_def)
  have vid: "events (animateSelected enableAudio respond order selected st)
           = specSchedule Video_job order (specWaves 3 (shotsToAnimate selected st))"
    using batch_trace [of Video_job] by (simp add: animateSelected_def)
  have aud: "map_option events (generateAllAudio True respond order st)
           = Some (specSchedule Audio_job order (specWaves 10 (shotsNeedingAudio st)))"
    using batch_trace [of Audio_job] by (simp add: generateAllAudio_def)
  from batch_trace [of kind enableAudio respond order jobs st]
       specWaves_concat [OF concurrency_pos, of kind jobs]
       sizes specWaves_full [of "concurrency kind" jobs] pk img vid aud
  show ?thesis by simp
qed



lemma rev_perm: "\<forall>w :: job list. mset (rev w) = mset w"
  by simp

lemma sevenJobs_waves:
  "specWaves 5 sevenJobs
     = [map (Job ''scene-0'' 0) [0, 1, 2, 3, 4], map (Job ''scene-0'' 0) [5, 6]]"
proof -
  have a: "specWaves 5 sevenJobs
             = map (Job ''scene-0'' 0) [0, 1, 2, 3, 4] # specWaves 5 (map (Job ''scene-0'' 0) [5, 6])"
    by (subst specWaves.simps) (simp add: sevenJobs_def)
  have b: "specWaves 5 (map (Job ''scene-0'' 0) [5, 6])
             = map (Job ''scene-0'' 0) [5, 6] # specWaves 5 []"
    by (subst specWaves.simps) simp
  have c: "specWaves 5 ([] :: job list) = []"
    by (simp add: specWaves_empty)
  show ?thesis by (simp only: a b c)
qed

theorem C3_waves_bounded_witness:
  "events (runWaves Image_job False rejectAll rev sevenJobs 0 (startRun demoStory))
     = map Started (map (Job ''scene-0'' 0) [0, 1, 2, 3, 4])
       @ map Finished (map (Job ''scene-0'' 0) [4, 3, 2, 1, 0])
       @ [Slept 500]
       @ map Started (map (Job ''scene-0'' 0) [5, 6])
       @ map Finished (map (Job ''scene-0'' 0) [6, 5])
   \<and> peak 0 (events (runWaves Image_job False rejectAll rev sevenJobs 0 (startRun demoStory))) \<le> 5"
proof -
  note inst = C3_waves_bounded [OF rev_perm, of Image_job False rejectAll sevenJobs demoStory]
  from inst have e: "events (runWaves Image_job False rejectAll rev sevenJobs 0 (startRun demoStory))
           = specSchedule Image_job rev (specWaves (concurrency Image_job) sevenJobs)"
    by blast
  from inst have p: "peak 0 (events (runWaves Image_job False rejectAll rev sevenJobs 0 (startRun demoStory)))
           \<le> concurrency Image_job"
    by blast
  have "specSchedule Image_job rev (specWaves (concurrency Image_job) sevenJobs)
     = map Started (map (Job ''scene-0'' 0) [0, 1, 2, 3, 4])
       @ map Finished (map (Job ''scene-0'' 0) [4, 3, 2, 1, 0])
       @ [Slept 500]
       @ map Started (map (Job ''scene-0'' 0) [5, 6])
       @ map Finished (map (Job ''scene-0'' 0) [6, 5])"
    by (simp add: sevenJobs_waves)
  with e p show ?thesis by simp
qed


section \<open>Properties of the Duration Normalizer\<close>

subsection \<open>Rounding to a double\<close>

lemma rne_of_int: "rne (of_int m) = m"
  by (simp add: rne_def)

lemma rne_floor: "\<lfloor>x\<rfloor> \<le> rne x" "rne x \<le> \<lfloor>x\<rfloor> + 1"
  by (simp_all add: rne_def Let_def)

lemma rne_mono:
  assumes "x \<le> y"
  shows "rne x \<le> rne y"
proof (cases "\<lfloor>x\<rfloor> = \<lfloor>y\<rfloor>")
  case True
  with assms show ?thesis
    by (auto simp add: rne_def Let_def)
next
  case False
  with assms have "\<lfloor>x\<rfloor> < \<lfloor>y\<rfloor>"
    using floor_mono [of x y] by linarith
  with rne_floor(2) [of x] rne_floor(1) [of y] show ?thesis
    by linarith
qed

lemma bitlen_powi:
  assumes "0 < p"
  shows "2 powi (bitlen p - 1) \<le> (of_int p :: rat)" and "(of_int p :: rat) < 2 powi bitlen p"
proof -
  from assms have b: "1 \<le> bitlen p"
    by (simp add: bitlen_alt_def)
  from bitlen_bounds [OF assms] have lo: "2 ^ nat (bitlen p - 1) \<le> p" and hi: "p < 2 ^ nat (bitlen p)"
    by simp_all
  from lo have "(of_int (2 ^ nat (bitlen p - 1)) :: rat) \<le> of_int p"
    by (simp only: of_int_le_iff)
  then show "2 powi (bitlen p - 1) \<le> (of_int p :: rat)"
    using b by (simp add: power_int_nonneg_exp)
  from hi have "(of_int p :: rat) < of_int (2 ^ nat (bitlen p))"
    by (simp only: of_int_less_iff)
  then show "(of_int p :: rat) < 2 powi bitlen p"
    using b by (simp add: power_int_nonneg_exp)
qed

lemma expo_bounds:
  assumes "0 < x"
  shows "2 powi expo x \<le> x" and "x < 2 powi (expo x + 1)"
proof -
  obtain p q where pq: "quotient_of x = (p, q)"
    by (cases "quotient_of x")
  then have q: "0 < q" and x: "x = of_int p / of_int q"
    by (simp_all add: quotient_of_denom_pos quotient_of_div)
  from assms q x have p: "0 < p"
    by (simp add: zero_less_divide_iff)
  let ?d = "bitlen p - bitlen q"
  have qpos: "(0::rat) < of_int q" using q by simp
  have "x < 2 powi bitlen p / 2 powi (bitlen q - 1)"
  proof -
    have "x < 2 powi bitlen p / of_int q"
      unfolding x using bitlen_powi(2) [OF p] qpos by (simp add: divide_strict_right_mono)
    also have "\<dots> \<le> 2 powi bitlen p / 2 powi (bitlen q - 1)"
      using bitlen_powi(1) [OF q] qpos by (intro divide_left_mono mult_pos_pos) simp_all
    finally show ?thesis .
  qed
  moreover have "2 powi bitlen p / 2 powi (bitlen q - 1) = (2::rat) powi (bitlen p - (bitlen q - 1))"
    by (rule power_int_diff [symmetric]) simp
  moreover have "bitlen p - (bitlen q - 1) = ?d + 1" by simp
  ultimately have hi: "x < 2 powi (?d + 1)"
    by (simp only:)
  have "2 powi (bitlen p - 1) / 2 powi bitlen q \<le> x"
  proof -
    have "2 powi (bitlen p - 1) / 2 powi bitlen q \<le> 2 powi (bitlen p - 1) / (of_int q :: rat)"
      using bitlen_powi(2) [OF q] qpos by (intro divide_left_mono mult_pos_pos) simp_all
    also have "\<dots> \<le> x"
      unfolding x using bitlen_powi(1) [OF p] qpos by (simp add: divide_right_mono)
    finally show ?thesis .
  qed
  moreover have "2 powi (bitlen p - 1) / 2 powi bitlen q = (2::rat) powi (bitlen p - 1 - bitlen q)"
    by (rule power_int_diff [symmetric]) simp
  moreover have "bitlen p - 1 - bitlen q = ?d - 1" by simp
  ultimately have lo: "2 powi (?d - 1) \<le> x"
    by (simp only:)
  have e: "expo x = (if 2 powi ?d \<le> x then ?d else ?d - 1)"
    using assms pq by (simp add: expo_def Let_def)
  show "2 powi expo x \<le> x"
    using lo by (simp add: e)
  show "x < 2 powi (expo x + 1)"
    using hi by (simp add: e)
qed

lemma powi_less_imp:
  assumes "(2::rat) powi a < 2 powi b"
  shows "a < b"
proof (rule ccontr)
  assume "\<not> a < b"
  then have "b \<le> a" by simp
  then have "(2::rat) powi b \<le> 2 powi a"
    by (rule power_int_increasing) simp
  with assms show False by simp
qed

lemma ulp_pos: "0 < ulp x"
  by (simp add: ulp_def)

lemma roundDouble_zero: "roundDouble 0 = 0"
  by (simp add: roundDouble_def rne_def)

lemma roundDouble_nonneg:
  assumes "0 \<le> x"
  shows "0 \<le> roundDouble x"
proof -
  from assms ulp_pos [of x] have "0 \<le> x / ulp x" by simp
  then have "0 \<le> \<lfloor>x / ulp x\<rfloor>" by simp
  with rne_floor(1) [of "x / ulp x"] have "0 \<le> rne (x / ulp x)" by linarith
  with ulp_pos [of x] show ?thesis
    by (simp add: roundDouble_def)
qed

lemma powi_53: "(2::rat) powi (e + 1) / 2 powi (e - 52) = of_int (2 ^ 53)"
proof -
  have "(2::rat) powi (e + 1) / 2 powi (e - 52) = 2 powi (e + 1 - (e - 52))"
    by (rule power_int_diff [symmetric]) simp
  also have "e + 1 - (e - 52) = 53" by simp
  finally show ?thesis by simp
qed

lemma powi_52: "(2::rat) powi e / 2 powi (e - 52) = of_int (2 ^ 52)"
proof -
  have "(2::rat) powi e / 2 powi (e - 52) = 2 powi (e - (e - 52))"
    by (rule power_int_diff [symmetric]) simp
  also have "e - (e - 52) = 52" by simp
  finally show ?thesis by simp
qed

lemma roundDouble_upper:
  assumes "0 < x"
  shows "roundDouble x \<le> 2 powi (max (expo x) (- 1022) + 1)"
proof -
  let ?E = "max (expo x) (- 1022)"
  have u: "ulp x = 2 powi (?E - 52)" by (simp add: ulp_def)
  have "x < 2 powi (expo x + 1)" using expo_bounds(2) [OF assms] .
  also have "\<dots> \<le> 2 powi (?E + 1)"
    by (rule power_int_increasing) simp_all
  finally have "x \<le> 2 powi (?E + 1)" by simp
  then have "x / ulp x \<le> 2 powi (?E + 1) / ulp x"
    using ulp_pos [of x] by (simp add: divide_right_mono)
  also have "\<dots> = of_int (2 ^ 53)"
    unfolding u by (rule powi_53)
  finally have "rne (x / ulp x) \<le> rne (of_int (2 ^ 53))"
    by (rule rne_mono)
  then have "rne (x / ulp x) \<le> 2 ^ 53"
    by (simp only: rne_of_int)
  then have "(of_int (rne (x / ulp x)) :: rat) \<le> of_int (2 ^ 53)"
    by (simp only: of_int_le_iff)
  then have "roundDouble x \<le> of_int (2 ^ 53) * ulp x"
    unfolding roundDouble_def using ulp_pos [of x] by (simp only: mult_le_cancel_right_pos)
  also have "\<dots> = 2 powi (?E + 1) / ulp x * ulp x"
    unfolding u by (simp only: powi_53)
  also have "\<dots> = 2 powi (?E + 1)"
    using ulp_pos [of x] by simp
  finally show ?thesis .
qed

lemma roundDouble_lower:
  assumes "0 < x" and "- 1022 \<le> expo x"
  shows "2 powi expo x \<le> roundDouble x"
proof -
  let ?E = "expo x"
  from assms(2) have u: "ulp x = 2 powi (?E - 52)" by (simp add: ulp_def max_def)
  have "2 powi ?E \<le> x" using expo_bounds(1) [OF assms(1)] .
  then have "2 powi ?E / ulp x \<le> x / ulp x"
    using ulp_pos [of x] by (simp add: divide_right_mono)
  moreover have "2 powi ?E / ulp x = of_int (2 ^ 52)"
    unfolding u by (rule powi_52)
  ultimately have "of_int (2 ^ 52) \<le> x / ulp x" by simp
  then have "rne (of_int (2 ^ 52)) \<le> rne (x / ulp x)"
    by (rule rne_mono)
  then have "2 ^ 52 \<le> rne (x / ulp x)"
    by (simp only: rne_of_int)
  then have "(of_int (2 ^ 52) :: rat) \<le> of_int (rne (x / ulp x))"
    by (simp only: of_int_le_iff)
  then have "of_int (2 ^ 52) * ulp x \<le> roundDouble x"
    unfolding roundDouble_def using ulp_pos [of x] by (simp only: mult_le_cancel_right_pos)
  moreover have "of_int (2 ^ 52) * ulp x = 2 powi ?E / ulp x * ulp x"
    unfolding u by (simp only: powi_52)
  moreover have "2 powi ?E / ulp x * ulp x = 2 powi ?E"
    using ulp_pos [of x] by simp
  ultimately show ?thesis by simp
qed

lemma expo_mono:
  assumes "0 < x" and "x \<le> y"
  shows "expo x \<le> expo y"
proof -
  from assms have y: "0 < y" by simp
  have "2 powi expo x \<le> x" using expo_bounds(1) [OF assms(1)] .
  also note assms(2)
  also have "y < 2 powi (expo y + 1)" using expo_bounds(2) [OF y] .
  finally have "expo x < expo y + 1" by (rule powi_less_imp)
  then show ?thesis by simp
qed

lemma roundDouble_mono:
  assumes "0 \<le> x" and "x \<le> y"
  shows "roundDouble x \<le> roundDouble y"
proof (cases "x = 0")
  case True
  with assms roundDouble_nonneg [of y] show ?thesis
    by (simp add: roundDouble_zero)
next
  case False
  with assms have x: "0 < x" and y: "0 < y" by simp_all
  let ?Ex = "max (expo x) (- 1022)"
  let ?Ey = "max (expo y) (- 1022)"
  from expo_mono [OF x assms(2)] have le: "?Ex \<le> ?Ey" by simp
  show ?thesis
  proof (cases "?Ex = ?Ey")
    case True
    then have u: "ulp x = ulp y" by (simp only: ulp_def)
    from assms(2) have "x / ulp y \<le> y / ulp y"
      using ulp_pos [of y] by (simp add: divide_right_mono)
    then have "rne (x / ulp y) \<le> rne (y / ulp y)" by (rule rne_mono)
    then have "(of_int (rne (x / ulp y)) :: rat) \<le> of_int (rne (y / ulp y))"
      by (simp only: of_int_le_iff)
    then show ?thesis
      unfolding roundDouble_def u using ulp_pos [of y] by (simp only: mult_le_cancel_right_pos)
  next
    case False
    with le have lt: "?Ex < ?Ey" by linarith
    then have ey: "- 1022 \<le> expo y" and eq: "?Ey = expo y" by linarith+
    have "roundDouble x \<le> 2 powi (?Ex + 1)" by (rule roundDouble_upper [OF x])
    also have "\<dots> \<le> 2 powi expo y"
    proof (rule power_int_increasing)
      from lt eq show "?Ex + 1 \<le> expo y" by linarith
    qed simp
    also have "\<dots> \<le> roundDouble y" by (rule roundDouble_lower [OF y ey])
    finally show ?thesis .
  qed
qed

lemma roundDouble_exact:
  assumes "0 \<le> m" and "m < 2 ^ 53" and "- 1074 \<le> k"
  shows "roundDouble (of_int m * 2 powi k) = of_int m * 2 powi k"
proof (cases "m = 0")
  case True
  then show ?thesis by (simp add: roundDouble_zero)
next
  case False
  with assms(1) have m: "0 < m" by simp
  let ?x = "of_int m * 2 powi k :: rat"
  have x: "0 < ?x" using m by simp
  let ?g = "max (expo ?x) (- 1022) - 52"
  have u: "ulp ?x = 2 powi ?g" by (simp only: ulp_def)
  have "2 powi expo ?x \<le> ?x" by (rule expo_bounds(1) [OF x])
  also have "?x < of_int (2 ^ 53) * 2 powi k"
    using assms(2) by (simp only: of_int_less_iff mult_less_cancel_right_pos zero_less_power_int zero_less_numeral)
  also have "of_int (2 ^ 53) * 2 powi k = (2::rat) powi (53 + k)"
    by (simp add: power_int_add)
  finally have "expo ?x < 53 + k" by (rule powi_less_imp)
  with assms(3) have g: "?g \<le> k" by simp
  then have n: "0 \<le> k - ?g" by simp
  have "(2::rat) powi k / 2 powi ?g = 2 powi (k - ?g)"
    by (rule power_int_diff [symmetric]) simp
  also have "\<dots> = 2 ^ nat (k - ?g)"
    using n by (rule power_int_nonneg_exp)
  finally have q: "(2::rat) powi k / 2 powi ?g = of_int (2 ^ nat (k - ?g))" by simp
  have "?x / ulp ?x = of_int m * (2 powi k / 2 powi ?g)"
    unfolding u by simp
  also have "\<dots> = of_int (m * 2 ^ nat (k - ?g))"
    unfolding q by simp
  finally have d: "?x / ulp ?x = of_int (m * 2 ^ nat (k - ?g))" .
  have "roundDouble ?x = of_int (rne (?x / ulp ?x)) * ulp ?x"
    by (simp only: roundDouble_def)
  also have "\<dots> = ?x / ulp ?x * ulp ?x"
    by (simp only: d rne_of_int)
  also have "\<dots> = ?x"
    using ulp_pos [of ?x] by simp
  finally show ?thesis .
qed

lemma roundDouble_of_nat:
  assumes "n < 2 ^ 53"
  shows "roundDouble (of_nat n) = of_nat n"
proof -
  have "int n < 2 ^ 53" using assms by (simp add: of_nat_less_numeral_power_cancel_iff)
  from roundDouble_exact [of "int n" 0, OF _ this] show ?thesis by simp
qed

subsection \<open>Padding\<close>

lemma copyChannels_result:
  assumes "length (channelData orig) = n"
    and "length (channelData ext) = n"
    and "\<forall>ch\<in>set chs. ch < n"
    and "\<forall>c\<in>set (channelData orig). length c \<le> L"
    and "\<forall>e\<in>set (channelData ext). length e = L"
  shows "\<exists>r. copyChannels chs orig ext = Some r
           \<and> numberOfChannels r = numberOfChannels ext
           \<and> sampleRate r = sampleRate ext
           \<and> frames r = frames ext
           \<and> length (channelData r) = n
           \<and> (\<forall>ch<n. channelData r ! ch =
                 (if ch \<in> set chs
                  then channelData orig ! ch @ drop (length (channelData orig ! ch)) (channelData ext ! ch)
                  else channelData ext ! ch))"
  using assms(2,3,5)
proof (induction chs arbitrary: ext)
  case Nil
  then show ?case by simp
next
  case (Cons channel rest)
  let ?o = "channelData orig ! channel"
  let ?e = "channelData ext ! channel"
  let ?copied = "?o @ drop (length ?o) ?e"
  let ?ext = "ext\<lparr>channelData := (channelData ext)[channel := ?copied]\<rparr>"
  from Cons.prems have ch: "channel < n" by simp
  with assms(1,4) have lo: "length ?o \<le> L" by simp
  from ch Cons.prems have le: "length ?e = L" by simp
  from lo le have lc: "length ?copied = L" by simp
  have step: "copyChannels (channel # rest) orig ext = copyChannels rest orig ?ext"
    using ch assms(1) Cons.prems(1) lo le by (simp add: nth_opt_eq typedArraySet_def)
  have p1: "length (channelData ?ext) = n" using Cons.prems(1) by simp
  have p2: "\<forall>ch\<in>set rest. ch < n" using Cons.prems(2) by simp
  have p3: "\<forall>e\<in>set (channelData ?ext). length e = L"
  proof
    fix e assume "e \<in> set (channelData ?ext)"
    then have "e \<in> insert ?copied (set (channelData ext))"
      using set_update_subset_insert [of "channelData ext" channel ?copied] by auto
    with lc Cons.prems(3) show "length e = L" by auto
  qed
  from Cons.IH [OF p1 p2 p3] obtain r where r:
    "copyChannels rest orig ?ext = Some r"
    "numberOfChannels r = numberOfChannels ?ext"
    "sampleRate r = sampleRate ?ext"
    "frames r = frames ?ext"
    "length (channelData r) = n"
    "\<forall>ch<n. channelData r ! ch =
        (if ch \<in> set rest
         then channelData orig ! ch @ drop (length (channelData orig ! ch)) (channelData ?ext ! ch)
         else channelData ?ext ! ch)"
    by blast
  have final: "\<forall>ch<n. channelData r ! ch =
                 (if ch \<in> set (channel # rest)
                  then channelData orig ! ch @ drop (length (channelData orig ! ch)) (channelData ext ! ch)
                  else channelData ext ! ch)"
  proof (intro allI impI)
    fix ch assume "ch < n"
    with r(6) have eq: "channelData r ! ch =
        (if ch \<in> set rest
         then channelData orig ! ch @ drop (length (channelData orig ! ch)) (channelData ?ext ! ch)
         else channelData ?ext ! ch)" by blast
    show "channelData r ! ch =
                 (if ch \<in> set (channel # rest)
                  then channelData orig ! ch @ drop (length (channelData orig ! ch)) (channelData ext ! ch)
                  else channelData ext ! ch)"
    proof (cases "ch = channel")
      case True
      with eq ch Cons.prems(1) show ?thesis by simp
    next
      case False
      with eq show ?thesis by simp
    qed
  qed
  from step r(1-5) final show ?case by simp
qed


lemma extendBuffer_cases:
  assumes wf: "wellFormed b"
  shows "extendBuffer b target =
           (if 0 < extendedLength b target \<and> frames b \<le> extendedLength b target
            then Some (paddedTo b (extendedLength b target)) else None)"
proof -
  let ?n = "numberOfChannels b"
  let ?L = "extendedLength b target"
  let ?ext = "\<lparr>numberOfChannels = ?n, sampleRate = sampleRate b, frames = ?L,
               channelData = replicate ?n (replicate ?L (0::rat))\<rparr>"
  from wf have n: "length (channelData b) = ?n" "0 < ?n" "0 < sampleRate b"
    and rows: "\<forall>c\<in>set (channelData b). length c = frames b"
    by (simp_all add: wellFormed_def list_all_iff)
  show ?thesis
  proof (cases "0 < ?L")
    case False
    then show ?thesis
      by (simp add: extendBuffer_def createBuffer_def)
  next
    case True
    note Lpos = this
    have cb: "createBuffer ?n ?L (sampleRate b) = Some ?ext"
      using n Lpos by (simp add: createBuffer_def)
    show ?thesis
    proof (cases "frames b \<le> ?L")
      case True
      note le = this
      have a2: "length (channelData ?ext) = ?n" by simp
      have a3: "\<forall>ch\<in>set [0..<?n]. ch < ?n" by simp
      have a4: "\<forall>c\<in>set (channelData b). length c \<le> ?L" using rows le by simp
      have a5: "\<forall>e\<in>set (channelData ?ext). length e = ?L" by simp
      from copyChannels_result [OF n(1) a2 a3 a4 a5] obtain r where r:
        "copyChannels [0..<?n] b ?ext = Some r"
        "numberOfChannels r = ?n" "sampleRate r = sampleRate b" "frames r = ?L"
        "length (channelData r) = ?n"
        "\<forall>ch<?n. channelData r ! ch =
            (if ch \<in> set [0..<?n]
             then channelData b ! ch @ drop (length (channelData b ! ch)) (channelData ?ext ! ch)
             else channelData ?ext ! ch)"
        by auto
      have cd: "channelData r = map (\<lambda>samples. samples @ replicate (?L - frames b) 0) (channelData b)"
      proof (rule nth_equalityI)
        show "length (channelData r) = length (map (\<lambda>samples. samples @ replicate (?L - frames b) 0) (channelData b))"
          using r(5) n(1) by simp
      next
        fix ch assume "ch < length (channelData r)"
        then have ch: "ch < ?n" using r(5) by simp
        then have len: "length (channelData b ! ch) = frames b" using rows n(1) by simp
        from ch r(6) have "channelData r ! ch =
            channelData b ! ch @ drop (length (channelData b ! ch)) (channelData ?ext ! ch)" by simp
        also have "\<dots> = channelData b ! ch @ replicate (?L - frames b) 0"
          using ch len by simp
        finally show "channelData r ! ch = map (\<lambda>samples. samples @ replicate (?L - frames b) 0) (channelData b) ! ch"
          using ch n(1) by simp
      qed
      have "r = paddedTo b ?L"
        using r(2-4) cd by (simp add: paddedTo_def)
      with cb r(1) Lpos le show ?thesis by (simp add: extendBuffer_def)
    next
      case False
      then have gt: "?L < frames b" by simp
      from n(2) have up: "[0..<?n] = 0 # [1..<?n]"
        by (simp add: upt_conv_Cons)
      from n(1,2) obtain c cs where c: "channelData b = c # cs"
        by (cases "channelData b") auto
      with rows have lc: "length c = frames b" by simp
      from n(2) obtain m where m: "?n = Suc m"
        by (cases ?n) auto
      have "copyChannels [0..<?n] b ?ext = None"
        unfolding up using c lc gt m by (simp add: typedArraySet_def)
      with cb False show ?thesis by (simp add: extendBuffer_def)
    qed
  qed
qed

lemma duration_nonneg: "0 \<le> duration b"
  unfolding duration_def by (rule roundDouble_nonneg) simp

lemma short_clip_frames:
  assumes "0 < sampleRate b" and "isDouble target" and "duration b < target"
  shows "of_nat (frames b) < target * of_nat (sampleRate b)"
proof (rule ccontr)
  assume "\<not> of_nat (frames b) < target * of_nat (sampleRate b)"
  then have "target * of_nat (sampleRate b) \<le> of_nat (frames b)" by simp
  then have le: "target \<le> of_nat (frames b) / of_nat (sampleRate b)"
    using assms(1) by (simp add: pos_le_divide_eq)
  from duration_nonneg [of b] assms(3) have "0 \<le> target" by simp
  from roundDouble_mono [OF this le] have "roundDouble target \<le> duration b"
    by (simp only: duration_def)
  with assms(2,3) show False by (simp add: isDouble_def)
qed

lemma target_frames:
  assumes "0 < target" and "isDouble target" and "0 < R"
  shows "target \<le> roundDouble (target * of_nat R)"
proof -
  from assms(3) have "(1::rat) \<le> of_nat R" by simp
  with assms(1) have le: "target \<le> target * of_nat R"
    by simp
  from assms(1) have "0 \<le> target" by simp
  from roundDouble_mono [OF this le] assms(2) show ?thesis
    by (simp add: isDouble_def)
qed

lemma extendedLength_fits:
  assumes "0 < target" and "isDouble target" and "0 < sampleRate b"
    and "target * of_nat (sampleRate b) \<le> 2 ^ 32 - 1"
  shows "extendedLength b target = nat \<lceil>roundDouble (target * of_nat (sampleRate b))\<rceil>"
    and "0 < extendedLength b target"
proof -
  let ?p = "roundDouble (target * of_nat (sampleRate b))"
  from target_frames [OF assms(1-3)] assms(1) have pos: "0 < ?p" by simp
  then have c1: "0 < \<lceil>?p\<rceil>" by (simp add: less_ceiling_iff)
  have m: "(2::rat) ^ 32 - 1 = of_nat 4294967295" by simp
  have "0 \<le> target * of_nat (sampleRate b)" using assms(1) by simp
  from roundDouble_mono [OF this assms(4)] have "?p \<le> roundDouble (of_nat 4294967295)"
    by (simp only: m)
  also have "\<dots> = of_nat 4294967295"
    by (rule roundDouble_of_nat) simp
  finally have "?p \<le> of_int 4294967295" by simp
  then have c2: "\<lceil>?p\<rceil> \<le> 4294967295" by (simp only: ceiling_le_iff)
  have small: "\<bar>(of_int \<lceil>?p\<rceil> :: rat)\<bar> < 2 ^ 1024"
  proof -
    have "\<bar>(of_int \<lceil>?p\<rceil> :: rat)\<bar> = of_int \<lceil>?p\<rceil>" using c1 by simp
    also have "\<dots> \<le> of_int 4294967295" using c2 by (simp only: of_int_le_iff)
    also have "\<dots> < (2::rat) ^ 1024" by simp
    finally show ?thesis .
  qed
  have md: "\<lceil>?p\<rceil> mod 2 ^ 32 = \<lceil>?p\<rceil>"
    using c1 c2 by simp
  have nn: "(0::rat) \<le> of_int \<lceil>?p\<rceil>" using c1 by simp
  show e: "extendedLength b target = nat \<lceil>?p\<rceil>"
    unfolding extendedLength_def mathCeil_def toUnsignedLong_def
    using small nn md by (simp only: floor_of_int if_True if_False not_le [symmetric] simp_thms)
  from c1 show "0 < extendedLength b target"
    unfolding e by simp
qed

lemma frames_le_extended:
  assumes "of_nat n < x" and "n < 2 ^ 53"
  shows "n \<le> nat \<lceil>roundDouble x\<rceil>"
proof -
  have "(0::rat) \<le> of_nat n" by simp
  moreover from assms(1) have "of_nat n \<le> x" by simp
  ultimately have "roundDouble (of_nat n) \<le> roundDouble x"
    by (rule roundDouble_mono)
  then have "of_nat n \<le> roundDouble x"
    by (simp only: roundDouble_of_nat [OF assms(2)])
  also have "\<dots> \<le> of_int \<lceil>roundDouble x\<rceil>"
    by (rule le_of_int_ceiling)
  finally have "(of_int (int n) :: rat) \<le> of_int \<lceil>roundDouble x\<rceil>"
    by simp
  then have "int n \<le> \<lceil>roundDouble x\<rceil>"
    by (simp only: of_int_le_iff)
  then show ?thesis by linarith
qed

lemma whole_frames:
  assumes "0 < x" and "x \<le> 2 ^ 32 - 1" and "x \<in> \<int>"
  shows "of_nat (nat \<lceil>roundDouble x\<rceil>) = x"
proof -
  from assms(3) obtain z where z: "x = of_int z" by (auto elim: Ints_cases)
  with assms(1,2) have z0: "0 < z" and z1: "z < 2 ^ 53"
  proof -
    from assms(1) z show "0 < z" by simp
    have "(of_int z :: rat) \<le> of_int 4294967295" using assms(2) z by simp
    then have "z \<le> 4294967295" by (simp only: of_int_le_iff)
    then show "z < 2 ^ 53" by simp
  qed
  from roundDouble_exact [of z 0] z0 z1 have "roundDouble x = of_int z"
    by (simp add: z)
  then have "\<lceil>roundDouble x\<rceil> = z" by simp
  with z0 show ?thesis by (simp add: z)
qed

lemma twoFrames_wf: "wellFormed twoFrames"
  by (simp add: wellFormed_def twoFrames_def)

lemma roundDouble_8192: "roundDouble (1 / 8192) = 1 / 8192"
  by code_simp

lemma roundDouble_65536: "roundDouble (1 / 65536) = 1 / 65536"
  by code_simp

lemma roundDouble_24000: "roundDouble (1 / 24000) = 6148914691236517 / 147573952589676412928"
  by code_simp

lemma roundDouble_375_64: "roundDouble (375 / 64) = 375 / 64"
  by code_simp

lemma roundDouble_8000: "roundDouble (1 / 8000) = 1152921504606847 / 9223372036854775808"
  by code_simp

text \<open>
  The rounding of the product decides the length: the double nearest to 0.1 is above 0.1,
  and at 44.1 kHz its exact product has the ceiling 4411, but the double product is 4410.
\<close>

lemma tenth_at_44100:
  "\<lceil>roundDouble (roundDouble (1 / 10) * 44100)\<rceil> = 4410"
  "\<lceil>roundDouble (1 / 10) * 44100\<rceil> = 4411"
  by code_simp+

lemma double_8192: "isDouble (1 / 8192)"
  by (simp add: isDouble_def roundDouble_8192)

lemma double_65536: "isDouble (1 / 65536)"
  by (simp add: isDouble_def roundDouble_65536)

lemma twoFrames_duration: "duration twoFrames = 6148914691236517 / 147573952589676412928"
  by (simp add: duration_def twoFrames_def roundDouble_24000)

lemma twoFrames_long: "1 / 65536 \<le> duration twoFrames"
  by (simp add: twoFrames_duration)

lemma twoFrames_short: "duration twoFrames < 1 / 8192"
  by (simp add: twoFrames_duration)

lemma twoFrames_product: "roundDouble (1 / 8192 * of_nat 48000) = 375 / 64"
  by (simp add: roundDouble_375_64)

lemma twoFrames_padded:
  "specPaddedBuffer twoFrames (1 / 8192) =
     \<lparr>numberOfChannels = 1, sampleRate = 48000, frames = 6, channelData = [[1, - 1, 0, 0, 0, 0]]\<rparr>"
proof -
  have f: "frames twoFrames = 2" "sampleRate twoFrames = 48000" "numberOfChannels twoFrames = 1"
    "channelData twoFrames = [[1, - 1]]"
    by (simp_all add: twoFrames_def)
  have "\<lceil>(375::rat) / 64\<rceil> = 6"
    by (simp add: ceiling_eq_iff)
  then have c: "nat \<lceil>roundDouble (1 / 8192 * of_nat 48000)\<rceil> = 6"
    by (simp only: twoFrames_product nat_numeral)
  have r: "replicate (6 - 2) (0::rat) = [0, 0, 0, 0]"
    by (simp add: numeral_eq_Suc)
  show ?thesis
    unfolding specPaddedBuffer_def paddedTo_def f c r by simp
qed

lemma six_frames_duration:
  "duration \<lparr>numberOfChannels = 1, sampleRate = 48000, frames = 6, channelData = [[1, - 1, 0, 0, 0, 0]]\<rparr>
     \<noteq> 1 / 8192"
  by (simp add: duration_def roundDouble_8000)

text \<open>
  Claim C5, as the code has it. The clip is decoded and well formed, its length is an
  \<open>unsigned long\<close> and its rate a whole number that a \<open>float\<close> holds; the target is a
  finite double. When the duration of the clip is at least the target, the function returns
  the data URL it was given. When it is shorter, the function builds a buffer of
  \<open>extendedLength\<close> frames and returns its WAV encoding, unless that length is 0 or less
  than the length of the clip (which takes a target of \<open>2^32\<close> frames or more), when
  it returns the data URL it was given. For a target of at most \<open>2^32 - 1\<close> frames the
  buffer built is \<open>specPaddedBuffer\<close>: the same channel count and sample rate, in every
  channel the original samples from offset 0 followed by zeros only, and
  \<open>Math.ceil(targetDuration * sampleRate)\<close> frames, at least one and at least as many as
  the clip has. Its duration is that of the whole frames, not the target; it is the target
  when \<open>targetDuration * sampleRate\<close> is a whole number.
\<close>

theorem C5_duration_normalizer:
  assumes "decodeAudioData audioDataUrl = Some b" and "wellFormed b"
    and "frames b < 2 ^ 32" and "sampleRate b < 2 ^ 24" and "isDouble targetDuration"
  shows "(targetDuration \<le> duration b \<longrightarrow>
            extendAudioToTargetDuration decodeAudioData audioDataUrl targetDuration = Given audioDataUrl)
       \<and> (duration b < targetDuration \<longrightarrow>
            extendAudioToTargetDuration decodeAudioData audioDataUrl targetDuration
              = (if 0 < extendedLength b targetDuration \<and> frames b \<le> extendedLength b targetDuration
                 then Wav_data_url (audioBufferToWav (paddedTo b (extendedLength b targetDuration)))
                 else Given audioDataUrl))
       \<and> (duration b < targetDuration \<and> targetDuration * of_nat (sampleRate b) \<le> 2 ^ 32 - 1 \<longrightarrow>
            extendBuffer b targetDuration = Some (specPaddedBuffer b targetDuration)
          \<and> extendAudioToTargetDuration decodeAudioData audioDataUrl targetDuration
              = Wav_data_url (audioBufferToWav (specPaddedBuffer b targetDuration))
          \<and> numberOfChannels (specPaddedBuffer b targetDuration) = numberOfChannels b
          \<and> sampleRate (specPaddedBuffer b targetDuration) = sampleRate b
          \<and> frames (specPaddedBuffer b targetDuration)
              = nat \<lceil>roundDouble (targetDuration * of_nat (sampleRate b))\<rceil>
          \<and> 0 < frames (specPaddedBuffer b targetDuration)
          \<and> frames b \<le> frames (specPaddedBuffer b targetDuration)
          \<and> (\<forall>channel < numberOfChannels b.
                take (frames b) (channelData (specPaddedBuffer b targetDuration) ! channel)
                  = channelData b ! channel
              \<and> drop (frames b) (channelData (specPaddedBuffer b targetDuration) ! channel)
                  = replicate (frames (specPaddedBuffer b targetDuration) - frames b) 0)
          \<and> (targetDuration * of_nat (sampleRate b) \<in> \<int> \<longrightarrow>
                of_nat (frames (specPaddedBuffer b targetDuration)) = targetDuration * of_nat (sampleRate b)
              \<and> duration (specPaddedBuffer b targetDuration) = targetDuration))"
proof (cases "targetDuration \<le> duration b")
  case True
  with assms(1) show ?thesis
    by (simp add: extendAudioToTargetDuration_def)
next
  case False
  then have short: "duration b < targetDuration" by simp
  from assms(2) have n: "length (channelData b) = numberOfChannels b" "0 < sampleRate b"
    and rows: "\<forall>c\<in>set (channelData b). length c = frames b"
    by (simp_all add: wellFormed_def list_all_iff)
  let ?x = "targetDuration * of_nat (sampleRate b)"
  let ?L = "extendedLength b targetDuration"
  from duration_nonneg [of b] short have t0: "0 < targetDuration" by simp
  note cases = extendBuffer_cases [OF assms(2), of targetDuration]
  have gen: "extendAudioToTargetDuration decodeAudioData audioDataUrl targetDuration
              = (if 0 < ?L \<and> frames b \<le> ?L
                 then Wav_data_url (audioBufferToWav (paddedTo b ?L))
                 else Given audioDataUrl)"
    using assms(1) short cases by (simp add: extendAudioToTargetDuration_def)
  have fit: "extendBuffer b targetDuration = Some (specPaddedBuffer b targetDuration)
          \<and> extendAudioToTargetDuration decodeAudioData audioDataUrl targetDuration
              = Wav_data_url (audioBufferToWav (specPaddedBuffer b targetDuration))
          \<and> numberOfChannels (specPaddedBuffer b targetDuration) = numberOfChannels b
          \<and> sampleRate (specPaddedBuffer b targetDuration) = sampleRate b
          \<and> frames (specPaddedBuffer b targetDuration) = nat \<lceil>roundDouble ?x\<rceil>
          \<and> 0 < frames (specPaddedBuffer b targetDuration)
          \<and> frames b \<le> frames (specPaddedBuffer b targetDuration)
          \<and> (\<forall>channel < numberOfChannels b.
                take (frames b) (channelData (specPaddedBuffer b targetDuration) ! channel)
                  = channelData b ! channel
              \<and> drop (frames b) (channelData (specPaddedBuffer b targetDuration) ! channel)
                  = replicate (frames (specPaddedBuffer b targetDuration) - frames b) 0)
          \<and> (?x \<in> \<int> \<longrightarrow>
                of_nat (frames (specPaddedBuffer b targetDuration)) = ?x
              \<and> duration (specPaddedBuffer b targetDuration) = targetDuration)"
    if range: "?x \<le> 2 ^ 32 - 1"
  proof -
    note len = extendedLength_fits [OF t0 assms(5) n(2) range]
    have sp: "specPaddedBuffer b targetDuration = paddedTo b ?L"
      by (simp only: specPaddedBuffer_def len(1))
    have fr: "frames (specPaddedBuffer b targetDuration) = nat \<lceil>roundDouble ?x\<rceil>"
      by (simp add: specPaddedBuffer_def paddedTo_def)
    have "frames b < 2 ^ 53"
      using assms(3) by (rule less_trans) simp
    from frames_le_extended [OF short_clip_frames [OF n(2) assms(5) short] this]
    have le: "frames b \<le> nat \<lceil>roundDouble ?x\<rceil>" .
    with len have ok: "0 < ?L \<and> frames b \<le> ?L" by simp
    have ext: "extendBuffer b targetDuration = Some (specPaddedBuffer b targetDuration)"
      using cases ok by (simp add: sp)
    have ret: "extendAudioToTargetDuration decodeAudioData audioDataUrl targetDuration
                = Wav_data_url (audioBufferToWav (specPaddedBuffer b targetDuration))"
      using gen ok by (simp add: sp)
    have pos: "0 < frames (specPaddedBuffer b targetDuration)"
      using len by (simp only: fr)
    have chans: "\<forall>channel < numberOfChannels b.
                take (frames b) (channelData (specPaddedBuffer b targetDuration) ! channel)
                  = channelData b ! channel
              \<and> drop (frames b) (channelData (specPaddedBuffer b targetDuration) ! channel)
                  = replicate (frames (specPaddedBuffer b targetDuration) - frames b) 0"
      using n(1) rows by (simp add: specPaddedBuffer_def paddedTo_def)
    have whole: "of_nat (frames (specPaddedBuffer b targetDuration)) = ?x
              \<and> duration (specPaddedBuffer b targetDuration) = targetDuration"
      if w: "?x \<in> \<int>"
    proof -
      from t0 n(2) have "0 < ?x" by simp
      from whole_frames [OF this range w]
      have f: "(of_nat (frames (specPaddedBuffer b targetDuration)) :: rat) = ?x"
        by (simp only: fr)
      have "duration (specPaddedBuffer b targetDuration)
              = roundDouble (?x / of_nat (sampleRate b))"
        unfolding duration_def f by (simp add: specPaddedBuffer_def paddedTo_def)
      also have "?x / of_nat (sampleRate b) = targetDuration"
        using n(2) by simp
      finally show ?thesis
        using f assms(5) by (simp add: isDouble_def)
    qed
    from ext ret fr pos le chans whole show ?thesis
      by (simp add: specPaddedBuffer_def paddedTo_def)
  qed
  from False gen fit show ?thesis by blast
qed

theorem C5_duration_normalizer_witness:
  "extendAudioToTargetDuration (\<lambda>u. Some twoFrames) ''data:audio/mpeg;base64,AAAA'' (1 / 65536)
     = Given ''data:audio/mpeg;base64,AAAA''
   \<and> extendBuffer twoFrames (1 / 8192)
     = Some \<lparr>numberOfChannels = 1, sampleRate = 48000, frames = 6, channelData = [[1, - 1, 0, 0, 0, 0]]\<rparr>
   \<and> extendAudioToTargetDuration (\<lambda>u. Some twoFrames) ''data:audio/mpeg;base64,AAAA'' (1 / 8192)
     = Wav_data_url (audioBufferToWav
         \<lparr>numberOfChannels = 1, sampleRate = 48000, frames = 6, channelData = [[1, - 1, 0, 0, 0, 0]]\<rparr>)"
proof -
  have f: "frames twoFrames < 2 ^ 32" "sampleRate twoFrames < 2 ^ 24"
    by (simp_all add: twoFrames_def)
  have r: "1 / 8192 * of_nat (sampleRate twoFrames) \<le> (2::rat) ^ 32 - 1"
    by (simp add: twoFrames_def)
  note long = C5_duration_normalizer
    [where decodeAudioData = "\<lambda>u. Some twoFrames" and audioDataUrl = "''data:audio/mpeg;base64,AAAA''"
       and b = twoFrames and targetDuration = "1 / 65536", OF refl twoFrames_wf f double_65536]
  note short = C5_duration_normalizer
    [where decodeAudioData = "\<lambda>u. Some twoFrames" and audioDataUrl = "''data:audio/mpeg;base64,AAAA''"
       and b = twoFrames and targetDuration = "1 / 8192", OF refl twoFrames_wf f double_8192]
  from long twoFrames_long
  have a: "extendAudioToTargetDuration (\<lambda>u. Some twoFrames) ''data:audio/mpeg;base64,AAAA'' (1 / 65536)
             = Given ''data:audio/mpeg;base64,AAAA''"
    by blast
  from short twoFrames_short r
  have b: "extendBuffer twoFrames (1 / 8192) = Some (specPaddedBuffer twoFrames (1 / 8192))"
    and c: "extendAudioToTargetDuration (\<lambda>u. Some twoFrames) ''data:audio/mpeg;base64,AAAA'' (1 / 8192)
             = Wav_data_url (audioBufferToWav (specPaddedBuffer twoFrames (1 / 8192)))"
    by blast+
  from a b c show ?thesis
    by (simp only: twoFrames_padded simp_thms)
qed

text \<open>
  The claim's "duration targetDuration" fails when the target is not a whole number of
  frames: a two-frame clip at 48 kHz padded to \<open>2^-13\<close> s (5.859375 frames) gets 6 frames,
  which do not last \<open>2^-13\<close> s.
\<close>

theorem C5_duration_counterexample:
  "isDouble (1 / 8192)
   \<and> duration twoFrames < 1 / 8192
   \<and> extendBuffer twoFrames (1 / 8192)
     = Some \<lparr>numberOfChannels = 1, sampleRate = 48000, frames = 6, channelData = [[1, - 1, 0, 0, 0, 0]]\<rparr>
   \<and> duration \<lparr>numberOfChannels = 1, sampleRate = 48000, frames = 6, channelData = [[1, - 1, 0, 0, 0, 0]]\<rparr>
     \<noteq> 1 / 8192"
proof -
  have p: "0 < sampleRate twoFrames" "(0::rat) < 1 / 8192"
    "1 / 8192 * of_nat (sampleRate twoFrames) \<le> (2::rat) ^ 32 - 1"
    by (simp_all add: twoFrames_def)
  have sp: "specPaddedBuffer twoFrames (1 / 8192)
              = paddedTo twoFrames (extendedLength twoFrames (1 / 8192))"
    by (simp only: specPaddedBuffer_def extendedLength_fits(1) [OF p(2) double_8192 p(1) p(3)])
  have c: "\<lceil>(375::rat) / 64\<rceil> = 6"
    by (simp add: ceiling_eq_iff)
  have l: "extendedLength twoFrames (1 / 8192) = 6"
    using extendedLength_fits(1) [OF p(2) double_8192 p(1) p(3)]
    by (simp add: twoFrames_def roundDouble_375_64 c)
  have fr: "frames twoFrames \<le> 6"
    by (simp add: twoFrames_def)
  from extendBuffer_cases [OF twoFrames_wf, of "1 / 8192"] l fr
  have "extendBuffer twoFrames (1 / 8192) = Some (paddedTo twoFrames (extendedLength twoFrames (1 / 8192)))"
    by simp
  then have e: "extendBuffer twoFrames (1 / 8192)
     = Some \<lparr>numberOfChannels = 1, sampleRate = 48000, frames = 6, channelData = [[1, - 1, 0, 0, 0, 0]]\<rparr>"
    by (simp only: sp [symmetric] twoFrames_padded)
  from double_8192 twoFrames_short e six_frames_duration show ?thesis
    by (intro conjI)
qed

lemma length_le_bytes: "length (le_bytes k n) = k"
  by (induction k arbitrary: n) simp_all

lemma le_value_le_bytes: "le_value (le_bytes k n) = n mod 256 ^ k"
proof (induction k arbitrary: n)
  case 0
  show ?case by simp
next
  case (Suc k)
  have "unat (of_nat (n mod 256) :: 8 word) = n mod 256"
    by (simp add: unat_of_nat)
  with Suc show ?case
    by (simp add: mod_mult2_eq)
qed

lemma length_wavHeader: "length (wavHeader b) = 44"
  by (simp add: wavHeader_def writeString_def length_le_bytes)

lemma length_sampleBytes: "length (sampleBytes s) = 2"
  by (simp add: sampleBytes_def length_le_bytes)

lemma concat_chunk:
  "\<forall>x\<in>set xs. length x = k \<Longrightarrow> i < length xs \<Longrightarrow> take k (drop (i * k) (concat xs)) = xs ! i"
proof (induction xs arbitrary: i)
  case Nil
  then show ?case by simp
next
  case (Cons x xs)
  show ?case
  proof (cases i)
    case 0
    with Cons.prems show ?thesis by simp
  next
    case (Suc j)
    with Cons.prems have "take k (drop (j * k) (concat xs)) = xs ! j"
      by (intro Cons.IH) simp_all
    with Suc Cons.prems show ?thesis by simp
  qed
qed

lemma length_concat_chunks:
  "\<forall>x\<in>set xs. length x = k \<Longrightarrow> length (concat xs) = length xs * k"
  by (induction xs) simp_all

lemma length_frameBytes: "length (frameBytes b i) = numberOfChannels b * 2"
  unfolding frameBytes_def
  using length_concat_chunks [of "map (\<lambda>channel. sampleBytes (sampleAt b channel i)) [0..<numberOfChannels b]" 2]
  by (simp add: length_sampleBytes)

lemma length_wavData: "length (wavData b) = frames b * (numberOfChannels b * 2)"
  unfolding wavData_def
  using length_concat_chunks [of "map (frameBytes b) [0..<frames b]" "numberOfChannels b * 2"]
  by (simp add: length_frameBytes)

lemma sample_in_frame:
  assumes "channel < numberOfChannels b"
  shows "take 2 (drop (channel * 2) (frameBytes b i)) = sampleBytes (sampleAt b channel i)"
  unfolding frameBytes_def
  using concat_chunk [of "map (\<lambda>channel. sampleBytes (sampleAt b channel i)) [0..<numberOfChannels b]" 2 channel]
    assms
  by (simp add: length_sampleBytes)

lemma frame_in_data:
  assumes "i < frames b"
  shows "take (numberOfChannels b * 2) (drop (i * (numberOfChannels b * 2)) (wavData b)) = frameBytes b i"
  unfolding wavData_def
  using concat_chunk [of "map (frameBytes b) [0..<frames b]" "numberOfChannels b * 2" i] assms
  by (simp add: length_frameBytes)

lemma sample_in_data:
  assumes "i < frames b" and "channel < numberOfChannels b"
  shows "take 2 (drop (2 * (i * numberOfChannels b + channel)) (wavData b))
           = sampleBytes (sampleAt b channel i)"
proof -
  let ?k = "numberOfChannels b * 2"
  have "take 2 (drop (channel * 2) (frameBytes b i))
          = take 2 (drop (channel * 2) (take ?k (drop (i * ?k) (wavData b))))"
    by (simp only: frame_in_data [OF assms(1)])
  also have "\<dots> = take 2 (take (?k - channel * 2) (drop (channel * 2) (drop (i * ?k) (wavData b))))"
    by (simp only: drop_take)
  also have "\<dots> = take 2 (drop (channel * 2 + i * ?k) (wavData b))"
    using assms(2) by (simp add: min_def)
  also have "channel * 2 + i * ?k = 2 * (i * numberOfChannels b + channel)"
    by (simp add: algebra_simps)
  finally show ?thesis
    by (simp only: sample_in_frame [OF assms(2)])
qed

lemma sampleAt_wellFormed:
  assumes "wellFormed b" and "i < frames b" and "channel < numberOfChannels b"
  shows "sampleAt b channel i = channelData b ! channel ! i"
proof -
  from assms(1,3) have "channel < length (channelData b)"
    by (simp add: wellFormed_def)
  moreover from this assms(1) have "length (channelData b ! channel) = frames b"
    by (simp add: wellFormed_def list_all_length)
  ultimately show ?thesis
    using assms(2) by (simp add: sampleAt_def nth_opt_eq)
qed

lemma toInt16_range: "- 32767 \<le> toInt16 s \<and> toInt16 s \<le> 32767"
proof -
  let ?x = "max (- 1) (min 1 s) * 32767"
  have b: "- 32767 \<le> ?x" "?x \<le> 32767" by (simp_all add: max_def min_def)
  show ?thesis
  proof (cases "0 \<le> ?x")
    case True
    then have "toInt16 s = \<lfloor>?x\<rfloor>" by (simp add: toInt16_def Let_def)
    moreover have "\<lfloor>?x\<rfloor> \<le> 32767" using b(2) by (simp add: floor_le_iff)
    moreover have "0 \<le> \<lfloor>?x\<rfloor>" using True by simp
    ultimately show ?thesis by simp
  next
    case False
    then have "toInt16 s = \<lceil>?x\<rceil>" by (simp add: toInt16_def Let_def)
    moreover have "- 32767 \<le> \<lceil>?x\<rceil>" using b(1) by (simp add: le_ceiling_iff)
    moreover have "\<lceil>?x\<rceil> \<le> 0" using False by (simp add: ceiling_le_iff)
    ultimately show ?thesis by simp
  qed
qed

lemma header_fields:
  "take 2 (drop 22 (wavHeader b)) = le_bytes 2 (numberOfChannels b)"
  "take 4 (drop 24 (wavHeader b)) = le_bytes 4 (sampleRate b)"
  "take 2 (drop 34 (wavHeader b)) = le_bytes 2 16"
  by (simp_all add: wavHeader_def writeString_def length_le_bytes)

lemma le_bytes_2: "le_bytes 2 n = [of_nat (n mod 256), of_nat (n div 256 mod 256)]"
  by (simp add: numeral_2_eq_2)

lemma le_bytes_4:
  "le_bytes 4 n = [of_nat (n mod 256), of_nat (n div 256 mod 256),
                   of_nat (n div 256 div 256 mod 256), of_nat (n div 256 div 256 div 256 mod 256)]"
proof -
  have "(4::nat) = Suc (Suc (Suc (Suc 0)))" by simp
  then show ?thesis by (simp only: le_bytes.simps)
qed

lemma sampleBytes_one: "sampleBytes 1 = [0xFF, 0x7F]"
  by (simp add: sampleBytes_def toInt16_def le_bytes_2)

lemma sampleBytes_minus_one: "sampleBytes (- 1) = [0x01, 0x80]"
  by (simp add: sampleBytes_def toInt16_def le_bytes_2)

lemma twoFrames_wav:
  "audioBufferToWav twoFrames =
     [82, 73, 70, 70, 40, 0, 0, 0, 87, 65, 86, 69, 102, 109, 116, 32, 16, 0, 0, 0, 1, 0, 1, 0,
      128, 187, 0, 0, 0, 119, 1, 0, 2, 0, 16, 0, 100, 97, 116, 97, 4, 0, 0, 0,
      255, 127, 1, 128]"
proof -
  have h: "wavHeader twoFrames =
     [82, 73, 70, 70, 40, 0, 0, 0, 87, 65, 86, 69, 102, 109, 116, 32, 16, 0, 0, 0, 1, 0, 1, 0,
      128, 187, 0, 0, 0, 119, 1, 0, 2, 0, 16, 0, 100, 97, 116, 97, 4, 0, 0, 0]"
    by (simp add: wavHeader_def twoFrames_def writeString_def le_bytes_2 le_bytes_4)
  have u1: "[0..<Suc 0] = [0]" by simp
  have u2: "[0..<2] = [0, Suc 0]" by (simp add: numeral_2_eq_2)
  have d: "wavData twoFrames = [255, 127, 1, 128]"
    unfolding wavData_def frameBytes_def sampleAt_def twoFrames_def
    by (simp add: u1 u2 sampleBytes_one sampleBytes_minus_one)
  show ?thesis
    unfolding audioBufferToWav_def h d by simp
qed


text \<open>
  Claim C9, as the code has it. The encoding of a well-formed buffer is a 44-byte header
  followed by the samples, two bytes each, frame by frame and channel by channel: the file
  has \<open>44 + 2 * frames * channels\<close> bytes, and the sample of frame \<open>i\<close> and channel
  \<open>c\<close> is at offset \<open>44 + 2 * (i * channels + c)\<close>, as the little-endian two's
  complement of the clamped sample times 32767 with its fraction dropped (a number from
  -32767 to 32767). The header holds the channel count at offset 22 (two bytes), the
  sample rate at offset 24 (four bytes) and 16 bits per sample at offset 34, all
  little-endian; read back, they are the buffer's channel count and sample rate.
\<close>

theorem C9_wav_container:
  assumes "wellFormed b"
  shows "length (audioBufferToWav b) = 44 + 2 * (frames b * numberOfChannels b)
       \<and> take 44 (audioBufferToWav b) = wavHeader b
       \<and> take 2 (drop 22 (audioBufferToWav b)) = le_bytes 2 (numberOfChannels b)
       \<and> take 4 (drop 24 (audioBufferToWav b)) = le_bytes 4 (sampleRate b)
       \<and> take 2 (drop 34 (audioBufferToWav b)) = le_bytes 2 16
       \<and> (numberOfChannels b < 2 ^ 16 \<longrightarrow>
            le_value (take 2 (drop 22 (audioBufferToWav b))) = numberOfChannels b)
       \<and> (sampleRate b < 2 ^ 32 \<longrightarrow>
            le_value (take 4 (drop 24 (audioBufferToWav b))) = sampleRate b)
       \<and> (\<forall>i < frames b. \<forall>channel < numberOfChannels b.
            take 2 (drop (44 + 2 * (i * numberOfChannels b + channel)) (audioBufferToWav b))
              = sampleBytes (channelData b ! channel ! i)
          \<and> le_value (sampleBytes (channelData b ! channel ! i))
              = nat (toInt16 (channelData b ! channel ! i) mod 2 ^ 16)
          \<and> - 32767 \<le> toInt16 (channelData b ! channel ! i)
          \<and> toInt16 (channelData b ! channel ! i) \<le> 32767)"
proof -
  have len: "length (audioBufferToWav b) = 44 + 2 * (frames b * numberOfChannels b)"
    by (simp add: audioBufferToWav_def length_wavHeader length_wavData)
  have hd: "take 44 (audioBufferToWav b) = wavHeader b"
    by (simp add: audioBufferToWav_def length_wavHeader)
  have f1: "take 2 (drop 22 (audioBufferToWav b)) = le_bytes 2 (numberOfChannels b)"
    using header_fields(1) [of b] by (simp add: audioBufferToWav_def length_wavHeader)
  have f2: "take 4 (drop 24 (audioBufferToWav b)) = le_bytes 4 (sampleRate b)"
    using header_fields(2) [of b] by (simp add: audioBufferToWav_def length_wavHeader)
  have f3: "take 2 (drop 34 (audioBufferToWav b)) = le_bytes 2 16"
    using header_fields(3) [of b] by (simp add: audioBufferToWav_def length_wavHeader)
  have v1: "numberOfChannels b < 2 ^ 16 \<longrightarrow>
            le_value (take 2 (drop 22 (audioBufferToWav b))) = numberOfChannels b"
    unfolding f1 by (simp add: le_value_le_bytes)
  have v2: "sampleRate b < 2 ^ 32 \<longrightarrow>
            le_value (take 4 (drop 24 (audioBufferToWav b))) = sampleRate b"
    unfolding f2 by (simp add: le_value_le_bytes)
  have smp: "\<forall>i < frames b. \<forall>channel < numberOfChannels b.
            take 2 (drop (44 + 2 * (i * numberOfChannels b + channel)) (audioBufferToWav b))
              = sampleBytes (channelData b ! channel ! i)
          \<and> le_value (sampleBytes (channelData b ! channel ! i))
              = nat (toInt16 (channelData b ! channel ! i) mod 2 ^ 16)
          \<and> - 32767 \<le> toInt16 (channelData b ! channel ! i)
          \<and> toInt16 (channelData b ! channel ! i) \<le> 32767"
  proof (intro allI impI)
    fix i channel assume i: "i < frames b" and c: "channel < numberOfChannels b"
    let ?s = "channelData b ! channel ! i"
    have "take 2 (drop (44 + 2 * (i * numberOfChannels b + channel)) (audioBufferToWav b))
            = take 2 (drop (2 * (i * numberOfChannels b + channel)) (wavData b))"
      by (simp add: audioBufferToWav_def length_wavHeader)
    also have "\<dots> = sampleBytes ?s"
      by (simp only: sample_in_data [OF i c] sampleAt_wellFormed [OF assms i c])
    finally have p: "take 2 (drop (44 + 2 * (i * numberOfChannels b + channel)) (audioBufferToWav b))
            = sampleBytes ?s" .
    have "nat (toInt16 ?s mod 65536) < 65536"
      by simp
    then have v: "le_value (sampleBytes ?s) = nat (toInt16 ?s mod 2 ^ 16)"
      by (simp add: sampleBytes_def le_value_le_bytes)
    from p v toInt16_range [of ?s]
    show "take 2 (drop (44 + 2 * (i * numberOfChannels b + channel)) (audioBufferToWav b))
              = sampleBytes ?s
          \<and> le_value (sampleBytes ?s) = nat (toInt16 ?s mod 2 ^ 16)
          \<and> - 32767 \<le> toInt16 ?s \<and> toInt16 ?s \<le> 32767"
      by blast
  qed
  from len hd f1 f2 f3 v1 v2 smp show ?thesis by blast
qed

theorem C9_wav_container_witness:
  "length (audioBufferToWav twoFrames) = 44 + 2 * (2 * 1)
   \<and> take 2 (drop 22 (audioBufferToWav twoFrames)) = le_bytes 2 1
   \<and> take 4 (drop 24 (audioBufferToWav twoFrames)) = le_bytes 4 48000
   \<and> le_value (take 2 (drop 22 (audioBufferToWav twoFrames))) = 1
   \<and> le_value (take 4 (drop 24 (audioBufferToWav twoFrames))) = 48000
   \<and> take 2 (drop (44 + 2 * (1 * 1 + 0)) (audioBufferToWav twoFrames)) = sampleBytes (- 1)"
proof -
  have f: "frames twoFrames = 2" "sampleRate twoFrames = 48000" "numberOfChannels twoFrames = 1"
    by (simp_all add: twoFrames_def)
  have c: "channelData twoFrames ! 0 ! 1 = - 1"
    by (simp add: twoFrames_def)
  have b: "(1::nat) < 2 ^ 16" "(48000::nat) < 2 ^ 32" "(1::nat) < 2" "(0::nat) < 1"
    by simp_all
  note inst = C9_wav_container [OF twoFrames_wf, unfolded f]
  from inst have s: "\<forall>i < 2. \<forall>channel < 1.
            take 2 (drop (44 + 2 * (i * 1 + channel)) (audioBufferToWav twoFrames))
              = sampleBytes (channelData twoFrames ! channel ! i)
          \<and> le_value (sampleBytes (channelData twoFrames ! channel ! i))
              = nat (toInt16 (channelData twoFrames ! channel ! i) mod 2 ^ 16)
          \<and> - 32767 \<le> toInt16 (channelData twoFrames ! channel ! i)
          \<and> toInt16 (channelData twoFrames ! channel ! i) \<le> 32767"
    by blast
  from s b(3,4) have "take 2 (drop (44 + 2 * (1 * 1 + 0)) (audioBufferToWav twoFrames))
              = sampleBytes (channelData twoFrames ! 0 ! 1)"
    by blast
  then have last: "take 2 (drop (44 + 2 * (1 * 1 + 0)) (audioBufferToWav twoFrames)) = sampleBytes (- 1)"
    by (simp only: c)
  from inst b(1,2) last show ?thesis by blast
qed

text \<open>
  The header is not 42 bytes long: the encoding of two frames on one channel has \<open>44 + 4\<close>
  bytes, its first sample \<open>FF 7F\<close> stands at offset 44, and the two bytes at offset 42 are
  the upper half of the header's data-size field.
\<close>

theorem C9_header_counterexample:
  "length (audioBufferToWav twoFrames) = 44 + 2 * 2
   \<and> length (audioBufferToWav twoFrames) \<noteq> 42 + 2 * 2
   \<and> sampleBytes (channelData twoFrames ! 0 ! 0) = [0xFF, 0x7F]
   \<and> take 2 (drop 42 (audioBufferToWav twoFrames)) = [0, 0]
   \<and> take 2 (drop 44 (audioBufferToWav twoFrames)) = [0xFF, 0x7F]"
  by (simp add: twoFrames_wav) (simp add: twoFrames_def sampleBytes_one)

section \<open>Properties of the Segment Processor\<close>

lemma copyVideo_present:
  "files s videoFile = Some video \<Longrightarrow>
     copyVideo videoFile outputFile s = (None, s\<lparr>files := (files s)(outputFile \<mapsto> video)\<rparr>)"
  by (simp add: copyVideo_def)

lemma loadAudio_unloadable:
  assumes "if startsWith url ''data:''
           then (case nth_opt (splitOn CHR '','' url) 1 of
                   None \<Rightarrow> True
                 | Some base64Data \<Rightarrow> base64Data = [] \<or> atob base64Data = None)
           else fetchFile url = None"
  shows "loadAudio atob fetchFile url = Empty_payload \<or> loadAudio atob fetchFile url = Load_failed"
  using assms by (auto simp: loadAudio_def split: option.splits if_splits)

text \<open>
  Claim C6. When the segment has no speech clip (\<open>hasAudio\<close> is false: no audio URL, or
  one of at most ten characters) and the input file is there, \<open>processVideo\<close> succeeds, the
  output file holds exactly the bytes of the input file, no encoder command is issued, and
  the console gains the one warning that the subtitle is ignored when a caption is present,
  and nothing otherwise.
\<close>

theorem C6_no_speech_passthrough:
  assumes "files s videoFile = Some video" and "\<not> hasAudio audioUrl"
  shows "fst (processVideo exec atob fetchFile videoFile audioUrl subtitle outputFile s) = None
       \<and> files (snd (processVideo exec atob fetchFile videoFile audioUrl subtitle outputFile s))
           = (files s)(outputFile \<mapsto> video)
       \<and> commands (snd (processVideo exec atob fetchFile videoFile audioUrl subtitle outputFile s))
           = commands s
       \<and> console (snd (processVideo exec atob fetchFile videoFile audioUrl subtitle outputFile s))
           = console s @ (if hasSubtitle subtitle then [Subtitle_ignored] else [])"
  using assms
  by (simp add: processVideo_def processVideoBody_def copyVideo_def warn_def)

theorem C6_no_speech_passthrough_witness:
  "fst (processVideo stubEncoder (\<lambda>b. None) (\<lambda>u. None)
          ''input0.mp4'' None (Some ''Hello'') ''processed0.mp4'' oneClip) = None
   \<and> files (snd (processVideo stubEncoder (\<lambda>b. None) (\<lambda>u. None)
          ''input0.mp4'' None (Some ''Hello'') ''processed0.mp4'' oneClip)) ''processed0.mp4''
       = Some [7, 7]
   \<and> commands (snd (processVideo stubEncoder (\<lambda>b. None) (\<lambda>u. None)
          ''input0.mp4'' None (Some ''Hello'') ''processed0.mp4'' oneClip)) = []
   \<and> console (snd (processVideo stubEncoder (\<lambda>b. None) (\<lambda>u. None)
          ''input0.mp4'' None (Some ''Hello'') ''processed0.mp4'' oneClip)) = [Subtitle_ignored]"
proof -
  have f: "files oneClip ''input0.mp4'' = Some [7, 7]"
    by (simp add: oneClip_def)
  have a: "\<not> hasAudio None"
    by (simp add: hasAudio_def)
  from C6_no_speech_passthrough [OF f a, of stubEncoder "\<lambda>b. None" "\<lambda>u. None" "Some ''Hello''" "''processed0.mp4''"]
  show ?thesis
    by (simp add: hasSubtitle_def oneClip_def)
qed

text \<open>
  Claim C10. The segment has a speech clip (\<open>hasAudio\<close>) whose data cannot be loaded: a
  data URL with no payload after the comma or with one that \<open>atob\<close> rejects, or another URL
  that \<open>fetchFile\<close> cannot fetch. Then \<open>processVideo\<close> reports success, the output file holds
  exactly the bytes of the input file, and no encoder command is issued.
\<close>

theorem C10_unloadable_speech_dropped:
  assumes "files s videoFile = Some video" and "hasAudio (Some url)"
    and "if startsWith url ''data:''
         then (case nth_opt (splitOn CHR '','' url) 1 of
                 None \<Rightarrow> True
               | Some base64Data \<Rightarrow> base64Data = [] \<or> atob base64Data = None)
         else fetchFile url = None"
  shows "fst (processVideo exec atob fetchFile videoFile (Some url) subtitle outputFile s) = None
       \<and> files (snd (processVideo exec atob fetchFile videoFile (Some url) subtitle outputFile s))
           = (files s)(outputFile \<mapsto> video)
       \<and> commands (snd (processVideo exec atob fetchFile videoFile (Some url) subtitle outputFile s))
           = commands s"
proof -
  have "loadAudio atob fetchFile url = Empty_payload \<or> loadAudio atob fetchFile url = Load_failed"
    using assms(3) by (rule loadAudio_unloadable)
  then show ?thesis
  proof
    assume "loadAudio atob fetchFile url = Empty_payload"
    with assms(1,2) show ?thesis
      by (simp add: processVideo_def processVideoBody_def copyVideo_def warn_def)
  next
    assume "loadAudio atob fetchFile url = Load_failed"
    with assms(1,2) show ?thesis
      by (simp add: processVideo_def processVideoBody_def copyVideo_def warn_def)
  qed
qed

theorem C10_unloadable_speech_dropped_witness:
  "fst (processVideo stubEncoder (\<lambda>b. None) (\<lambda>u. None)
          ''input0.mp4'' (Some ''data:audio/mpeg;base64,'') None ''processed0.mp4'' oneClip) = None
   \<and> files (snd (processVideo stubEncoder (\<lambda>b. None) (\<lambda>u. None)
          ''input0.mp4'' (Some ''data:audio/mpeg;base64,'') None ''processed0.mp4'' oneClip))
        ''processed0.mp4'' = Some [7, 7]
   \<and> fst (processVideo stubEncoder (\<lambda>b. None) (\<lambda>u. None)
          ''input0.mp4'' (Some ''https://example.org/speech.mp3'') None ''processed0.mp4'' oneClip) = None
   \<and> files (snd (processVideo stubEncoder (\<lambda>b. None) (\<lambda>u. None)
          ''input0.mp4'' (Some ''https://example.org/speech.mp3'') None ''processed0.mp4'' oneClip))
        ''processed0.mp4'' = Some [7, 7]
   \<and> commands (snd (processVideo stubEncoder (\<lambda>b. None) (\<lambda>u. None)
          ''input0.mp4'' (Some ''https://example.org/speech.mp3'') None ''processed0.mp4'' oneClip)) = []"
proof -
  have f: "files oneClip ''input0.mp4'' = Some [7, 7]"
    by (simp add: oneClip_def)
  have a1: "hasAudio (Some ''data:audio/mpeg;base64,'')"
    by (simp add: hasAudio_def)
  have a2: "hasAudio (Some ''https://example.org/speech.mp3'')"
    by (simp add: hasAudio_def)
  from C10_unloadable_speech_dropped
         [where s = oneClip and videoFile = "''input0.mp4''" and video = "[7, 7]"
            and url = "''data:audio/mpeg;base64,''" and atob = "\<lambda>b. None" and fetchFile = "\<lambda>u. None"
            and exec = stubEncoder and subtitle = None and outputFile = "''processed0.mp4''"]
       C10_unloadable_speech_dropped
         [where s = oneClip and videoFile = "''input0.mp4''" and video = "[7, 7]"
            and url = "''https://example.org/speech.mp3''" and atob = "\<lambda>b. None"
            and fetchFile = "\<lambda>u. None"
            and exec = stubEncoder and subtitle = None and outputFile = "''processed0.mp4''"]
       f a1 a2
  show ?thesis
    by (simp add: oneClip_def)
qed








end
